theory Spec2Isabelle
  imports Main "HOL-Library.Sublist"
begin

section \<open>Python strings\<close>

text \<open>
  Python \<open>str\<close> values are modelled as \<open>string\<close> (lists of bytes, the UTF-8 encoding
  of the text). Every delimiter the plugin looks for is ASCII, so splitting, stripping and
  searching on bytes gives the encoding of what Python computes on code points.
\<close>

definition startswith :: "string \<Rightarrow> string \<Rightarrow> bool" where
  "startswith s p = prefix p s"

definition endswith :: "string \<Rightarrow> string \<Rightarrow> bool" where
  "endswith s p = suffix p s"

definition lstrip :: "char \<Rightarrow> string \<Rightarrow> string" where
  "lstrip c s = dropWhile (\<lambda>x. x = c) s"

definition rstrip :: "char \<Rightarrow> string \<Rightarrow> string" where
  "rstrip c s = rev (dropWhile (\<lambda>x. x = c) (rev s))"

definition strip :: "char \<Rightarrow> string \<Rightarrow> string" where
  "strip c s = rstrip c (lstrip c s)"

definition removeprefix :: "string \<Rightarrow> string \<Rightarrow> string" where
  "removeprefix s p = (if startswith s p then drop (length p) s else s)"

text \<open>\<open>s.split(c)\<close> for a one-character separator: always at least one piece.\<close>

fun split :: "char \<Rightarrow> string \<Rightarrow> string list" where
  "split c [] = [[]]"
| "split c (x # xs) =
     (if x = c then [] # split c xs
      else (case split c xs of
              [] \<Rightarrow> [[x]]
            | w # ws \<Rightarrow> (x # w) # ws))"

text \<open>\<open>sep.join(parts)\<close>.\<close>

fun join_with :: "string \<Rightarrow> string list \<Rightarrow> string" where
  "join_with sep [] = []"
| "join_with sep [p] = p"
| "join_with sep (p # q # ps) = p @ sep @ join_with sep (q # ps)"

text \<open>
  \<open>s.replace(old, new)\<close>: every non-overlapping occurrence of \<open>old\<close>, scanning from the
  left. For an empty \<open>old\<close> Python puts \<open>new\<close> before every character and at the end.
\<close>

fun replace_from :: "string \<Rightarrow> string \<Rightarrow> nat \<Rightarrow> string \<Rightarrow> string" where
  "replace_from old new skip [] = []"
| "replace_from old new (Suc n) (x # xs) = replace_from old new n xs"
| "replace_from old new 0 (x # xs) =
     (if prefix old (x # xs) then new @ replace_from old new (length old - 1) xs
      else x # replace_from old new 0 xs)"

definition replace :: "string \<Rightarrow> string \<Rightarrow> string \<Rightarrow> string" where
  "replace s old new =
     (if old = [] then concat (map (\<lambda>x. new @ [x]) s) @ new
      else replace_from old new 0 s)"

definition contains_char :: "char \<Rightarrow> string \<Rightarrow> bool" where
  "contains_char c s = (c \<in> set s)"

text \<open>
  Iterating over a string gives its characters: in the encoding, a byte together with
  the continuation bytes (\<open>0x80\<close> to \<open>0xBF\<close>) that follow it.
\<close>

definition continuation :: "char \<Rightarrow> bool" where
  "continuation c = (128 \<le> (of_char c :: nat) \<and> (of_char c :: nat) < 192)"

function characters :: "string \<Rightarrow> string list" where
  "characters [] = []"
| "characters (c # cs) = (c # takeWhile continuation cs) # characters (dropWhile continuation cs)"
  by pat_completeness auto
termination
  by (relation "measure length") (auto simp: less_Suc_eq_le length_dropWhile_le)

text \<open>
  Reading a file as text (\<open>open(path, "r")\<close>, then \<open>read\<close>). The bytes are decoded in
  the encoding of the locale, taken to be UTF-8, and \<open>read\<close> raises \<open>UnicodeDecodeError\<close>
  when they are not well formed: \<open>utf8\<close> is the table of well-formed byte sequences. A
  carriage return followed by a line feed, or standing alone, is read as a line feed.
  Writing text encodes it again and leaves a line feed as it is.
\<close>

definition tail_byte :: "nat \<Rightarrow> bool" where
  "tail_byte b = (128 \<le> b \<and> b < 192)"

fun utf8 :: "nat list \<Rightarrow> bool" where
  "utf8 [] = True"
| "utf8 (b # bs) =
     (if b < 128 then utf8 bs
      else if 194 \<le> b \<and> b < 224 then
        (case bs of
           c # r \<Rightarrow> tail_byte c \<and> utf8 r
         | _ \<Rightarrow> False)
      else if 224 \<le> b \<and> b < 240 then
        (case bs of
           c # d # r \<Rightarrow>
             (if b = 224 then 160 \<le> c \<and> c < 192
              else if b = 237 then 128 \<le> c \<and> c < 160
              else tail_byte c)
             \<and> tail_byte d \<and> utf8 r
         | _ \<Rightarrow> False)
      else if 240 \<le> b \<and> b < 245 then
        (case bs of
           c # d # e # r \<Rightarrow>
             (if b = 240 then 144 \<le> c \<and> c < 192
              else if b = 244 then 128 \<le> c \<and> c < 144
              else tail_byte c)
             \<and> tail_byte d \<and> tail_byte e \<and> utf8 r
         | _ \<Rightarrow> False)
      else False)"

text \<open>
  Decoding with \<open>errors='replace'\<close>, as a function on the bytes: a well-formed sequence
  is kept, and every ill-formed one (a byte that cannot start a sequence, or the start of
  a sequence up to the byte that cannot continue it or to the end of the input) becomes
  U+FFFD, whose encoding is \<open>EF BF BD\<close>.
\<close>

definition replacement :: "nat list" where
  "replacement = [239, 191, 189]"

definition second_byte :: "nat \<Rightarrow> nat \<Rightarrow> bool" where
  "second_byte b c =
     (tail_byte c \<and> (b = 224 \<longrightarrow> 160 \<le> c) \<and> (b = 237 \<longrightarrow> c < 160)
      \<and> (b = 240 \<longrightarrow> 144 \<le> c) \<and> (b = 244 \<longrightarrow> c < 144))"

fun decode_replace :: "nat list \<Rightarrow> nat list" where
  "decode_replace [] = []"
| "decode_replace (b # bs) =
     (if b < 128 then b # decode_replace bs
      else if 194 \<le> b \<and> b < 224 then
        (case bs of
           [] \<Rightarrow> replacement
         | c # r \<Rightarrow>
             if tail_byte c then b # c # decode_replace r
             else replacement @ decode_replace bs)
      else if 224 \<le> b \<and> b < 240 then
        (case bs of
           [] \<Rightarrow> replacement
         | c # r \<Rightarrow>
             if \<not> second_byte b c then replacement @ decode_replace bs
             else (case r of
                     [] \<Rightarrow> replacement
                   | d # r' \<Rightarrow>
                       if tail_byte d then b # c # d # decode_replace r'
                       else replacement @ decode_replace r))
      else if 240 \<le> b \<and> b < 245 then
        (case bs of
           [] \<Rightarrow> replacement
         | c # r \<Rightarrow>
             if \<not> second_byte b c then replacement @ decode_replace bs
             else (case r of
                     [] \<Rightarrow> replacement
                   | d # r' \<Rightarrow>
                       if \<not> tail_byte d then replacement @ decode_replace r
                       else (case r' of
                               [] \<Rightarrow> replacement
                             | e # r'' \<Rightarrow>
                                 if tail_byte e then b # c # d # e # decode_replace r''
                                 else replacement @ decode_replace r')))
      else replacement @ decode_replace bs)"

fun universal_newlines :: "string \<Rightarrow> string" where
  "universal_newlines [] = []"
| "universal_newlines [c] = (if c = CHR 0x0D then [CHR 0x0A] else [c])"
| "universal_newlines (c # d # cs) =
     (if c = CHR 0x0D \<and> d = CHR 0x0A then CHR 0x0A # universal_newlines cs
      else if c = CHR 0x0D then CHR 0x0A # universal_newlines (d # cs)
      else c # universal_newlines (d # cs))"

section \<open>The \<open>os.path\<close> functions the plugin calls (POSIX flavour)\<close>

abbreviation sep :: char where
  "sep \<equiv> CHR ''/''"

text \<open>\<open>os.path.join(a, b)\<close>: an absolute \<open>b\<close> discards \<open>a\<close>.\<close>

definition join :: "string \<Rightarrow> string \<Rightarrow> string" where
  "join a b =
     (if startswith b [sep] then b
      else if a = [] \<or> endswith a [sep] then a @ b
      else a @ [sep] @ b)"

text \<open>\<open>os.path.join(a, b, c)\<close> folds the same step over its arguments.\<close>

definition join3 :: "string \<Rightarrow> string \<Rightarrow> string \<Rightarrow> string" where
  "join3 a b c = join (join a b) c"

text \<open>\<open>os.path.basename(p)\<close>: what follows the last separator.\<close>

definition basename :: "string \<Rightarrow> string" where
  "basename p = rev (takeWhile (\<lambda>x. x \<noteq> sep) (rev p))"

text \<open>
  \<open>os.path.dirname(p)\<close>: the text up to and including the last separator, with trailing
  separators removed unless it consists of separators only.
\<close>

definition dirname :: "string \<Rightarrow> string" where
  "dirname p =
     (let head = rev (dropWhile (\<lambda>x. x \<noteq> sep) (rev p))
      in if head \<noteq> [] \<and> (\<exists>x \<in> set head. x \<noteq> sep) then rstrip sep head else head)"

text \<open>
  The loop of \<open>os.path.normpath\<close> over the components: empty components and \<open>.\<close> are
  dropped; \<open>..\<close> removes the component before it, is kept at the start of a relative path
  and after another \<open>..\<close>, and is dropped at the root of an absolute path.
\<close>

fun norm_comps :: "bool \<Rightarrow> string list \<Rightarrow> string list \<Rightarrow> string list" where
  "norm_comps absolute new_comps [] = new_comps"
| "norm_comps absolute new_comps (c # comps) =
     (if c = [] \<or> c = ''.'' then norm_comps absolute new_comps comps
      else if c \<noteq> ''..'' \<or> (\<not> absolute \<and> new_comps = [])
                \<or> (new_comps \<noteq> [] \<and> last new_comps = ''..'')
           then norm_comps absolute (new_comps @ [c]) comps
      else if new_comps \<noteq> [] then norm_comps absolute (butlast new_comps) comps
      else norm_comps absolute new_comps comps)"

definition initial_slashes :: "string \<Rightarrow> nat" where
  "initial_slashes path =
     (if \<not> startswith path ''/'' then 0
      else if startswith path ''//'' \<and> \<not> startswith path ''///'' then 2
      else 1)"

definition normpath :: "string \<Rightarrow> string" where
  "normpath path =
     (if path = [] then ''.''
      else let n = initial_slashes path;
               comps = norm_comps (n \<noteq> 0) [] (split sep path);
               p = replicate n sep @ join_with ''/'' comps
           in if p = [] then ''.'' else p)"

text \<open>\<open>os.path.abspath(p)\<close>, with the process's working directory as a parameter.\<close>

definition abspath :: "string \<Rightarrow> string \<Rightarrow> string" where
  "abspath cwd p = normpath (join cwd p)"

text \<open>\<open>os.path.commonprefix\<close> of two component lists.\<close>

fun commonprefix :: "string list \<Rightarrow> string list \<Rightarrow> string list" where
  "commonprefix (x # xs) (y # ys) = (if x = y then x # commonprefix xs ys else [])"
| "commonprefix _ _ = []"

datatype error =
    PluginRunError
  | KeyError
  | IndexError
  | TypeError
  | AttributeError
  | ValueError
  | IsADirectoryError
  | UnicodeDecodeError

definition read_text :: "string \<Rightarrow> error + string" where
  "read_text bytes =
     (if utf8 (map of_char bytes) then Inr (universal_newlines bytes)
      else Inl UnicodeDecodeError)"

text \<open>\<open>os.path.relpath(path, start)\<close>; an empty \<open>path\<close> raises \<open>ValueError\<close>.\<close>

definition relpath :: "string \<Rightarrow> string \<Rightarrow> string \<Rightarrow> error + string" where
  "relpath cwd path start =
     (if path = [] then Inl ValueError
      else let start_list = filter (\<lambda>x. x \<noteq> []) (split sep (abspath cwd start));
               path_list = filter (\<lambda>x. x \<noteq> []) (split sep (abspath cwd path));
               i = length (commonprefix start_list path_list);
               rel_list = replicate (length start_list - i) ''..'' @ drop i path_list
           in if rel_list = [] then Inr ''.'' else Inr (join_with ''/'' rel_list))"

text \<open>
  The first component of \<open>os.path.splitext(p)\<close>: the text before the last dot, when that
  dot comes after the last separator and some character between the two is not a dot.
\<close>

definition splitext_root :: "string \<Rightarrow> string" where
  "splitext_root p =
     (let name = basename p;
          before_dot = rev (drop 1 (dropWhile (\<lambda>x. x \<noteq> CHR ''.'') (rev name)))
      in if CHR ''.'' \<in> set name \<and> (\<exists>x \<in> set before_dot. x \<noteq> CHR ''.'')
         then take (length p - length name) p @ before_dot
         else p)"

section \<open>\<open>path_utils\<close>\<close>

text \<open>
  Modelled from the spec: \<open>path_utils.real_join\<close>, whose module is not among the sources.
  PathUtils joins possibly relative or absolute path fragments against a base, and link
  resolution resolves a link textually against a directory to get an absolute path: the
  fragment is joined to the base (an absolute fragment replaces it) and the result is
  normalised textually. Every base the plugin passes is absolute.
\<close>

definition real_join :: "string \<Rightarrow> string \<Rightarrow> string" where
  "real_join base fragment = normpath (join base fragment)"

text \<open>
  Modelled from the spec: \<open>path_utils.stem\<close>, whose module is not among the sources.
  PathUtils extracts a filename stem: the last component of the path without its
  extension. A path that ends in a separator has an empty last component, which is why
  the plugin strips trailing separators first and falls back to other names on an empty
  stem.
\<close>

definition stem :: "string \<Rightarrow> string" where
  "stem p = splitext_root (basename p)"

section \<open>The structure description\<close>

text \<open>
  The \<open>structure\<close> option is a value read from the configuration file: a string, a
  list, a dictionary with string keys (in insertion order), or anything else (a number,
  a boolean, \<open>None\<close>).
\<close>

datatype cfg =
    Str string
  | Lst "cfg list"
  | Dct "(string \<times> cfg) list"
  | Other

text \<open>\<open>d.get(key, default)\<close>.\<close>

definition dict_get :: "(string \<times> cfg) list \<Rightarrow> string \<Rightarrow> cfg \<Rightarrow> cfg" where
  "dict_get d key dflt = (case map_of d key of None \<Rightarrow> dflt | Some v \<Rightarrow> v)"

text \<open>
  \<open>list(item.keys())[0]\<close> and \<open>list(item.values())[0]\<close>: only a dictionary has
  \<open>keys\<close>, and an empty one has no first key.
\<close>

fun first_entry :: "cfg \<Rightarrow> error + (string \<times> cfg)" where
  "first_entry (Dct []) = Inl IndexError"
| "first_entry (Dct (kv # kvs)) = Inr kv"
| "first_entry _ = Inl AttributeError"

lemma first_entry_size: "first_entry item = Inr kv \<Longrightarrow> size (snd kv) < size item"
  by (cases item rule: first_entry.cases) auto

text \<open>A loop that updates a state and stops at the first exception.\<close>

fun fold_err :: "('a \<Rightarrow> 's \<Rightarrow> error + 's) \<Rightarrow> 'a list \<Rightarrow> 's \<Rightarrow> error + 's" where
  "fold_err f [] s = Inr s"
| "fold_err f (x # xs) s = (case f x s of Inl e \<Rightarrow> Inl e | Inr s' \<Rightarrow> fold_err f xs s')"

text \<open>A loop that appends one result per element and stops at the first exception.\<close>

fun map_err :: "('a \<Rightarrow> error + 'b) \<Rightarrow> 'a list \<Rightarrow> error + 'b list" where
  "map_err f [] = Inr []"
| "map_err f (x # xs) =
     (case f x of
        Inl e \<Rightarrow> Inl e
      | Inr y \<Rightarrow> (case map_err f xs of Inl e \<Rightarrow> Inl e | Inr ys \<Rightarrow> Inr (y # ys)))"

lemma fold_err_cong [fundef_cong]:
  "xs = ys \<Longrightarrow> s = t \<Longrightarrow> (\<And>x u. x \<in> set ys \<Longrightarrow> f x u = g x u) \<Longrightarrow> fold_err f xs s = fold_err g ys t"
  by (induction ys arbitrary: xs s t) (auto split: sum.splits)

lemma map_err_cong [fundef_cong]:
  "xs = ys \<Longrightarrow> (\<And>x. x \<in> set ys \<Longrightarrow> f x = g x) \<Longrightarrow> map_err f xs = map_err g ys"
  by (induction ys arbitrary: xs) (auto split: sum.splits)

lemma size_map_of_cfg:
  "map_of d key = Some v \<Longrightarrow> size v < Suc (size_list (size_prod (\<lambda>_. 0) size) d)"
  by (induction d) (auto split: if_splits)

lemma size_item_cfg:
  "(x :: cfg) \<in> set xs \<Longrightarrow> size x < Suc (size_list size xs)"
  by (induction xs) auto

lemma size_dict_get_cfg:
  "size (dict_get d key (Lst [])) \<le> Suc (size_list (size_prod (\<lambda>_. 0) size) d)"
  using size_map_of_cfg [of d key] by (auto simp: dict_get_def split: option.splits)

lemma size_entry_cfg:
  "(k, v) \<in> set d \<Longrightarrow> size v < Suc (size_list (size_prod (\<lambda>_. 0) size) d)"
  by (induction d) auto

lemma size_snd_cfg:
  "kv \<in> set kvs \<Longrightarrow> size (snd kv) < Suc (size_list (size_prod (\<lambda>_. 0) size) kvs)"
  by (cases kv) (auto dest: size_entry_cfg)

section \<open>\<open>_parse_structure\<close>: the copy plan\<close>

text \<open>
  \<open>to_copy\<close> is a Python set of (source, destination) pairs; \<open>_parse_copy\<close> adds to it
  while it walks the structure. The model passes the set along and returns it; an
  exception abandons it. \<open>src_path\<close> starts at the working directory (the content
  root) and \<open>dst_path\<close> at the \<open>docs\<close> directory of the Docusaurus project.

  The entries of an \<open>extra\<close> field: a list gives its elements, each of which must be a
  string (\<open>rstrip\<close> is a string method); iterating a string gives its characters and
  iterating a dictionary its keys; anything else is not iterable.
\<close>

fun extra_entries :: "cfg \<Rightarrow> error + string list" where
  "extra_entries (Lst xs) =
     map_err (\<lambda>x. case x of Str e \<Rightarrow> Inr e | _ \<Rightarrow> Inl AttributeError) xs"
| "extra_entries (Str s) = Inr (characters s)"
| "extra_entries (Dct kvs) = Inr (map fst kvs)"
| "extra_entries Other = Inl TypeError"

definition add_extras ::
  "string \<Rightarrow> string \<Rightarrow> string list \<Rightarrow> (string \<times> string) set \<Rightarrow> (string \<times> string) set" where
  "add_extras src_path dst_path extras to_copy =
     fold (\<lambda>extra acc.
             let extra' = rstrip sep extra
             in insert (real_join src_path extra', real_join dst_path (stem extra')) acc)
          extras to_copy"

function parse_copy ::
  "cfg \<Rightarrow> string \<Rightarrow> string \<Rightarrow> (string \<times> string) set \<Rightarrow> error + (string \<times> string) set" where
  "parse_copy (Lst items) src_path dst_path to_copy =
     fold_err (\<lambda>item acc. parse_copy item src_path dst_path acc) items to_copy"
| "parse_copy (Dct kvs) src_path dst_path to_copy =
     fold_err (\<lambda>kv acc.
        case snd kv of
          Str v \<Rightarrow>
            Inr (insert (real_join src_path v, join dst_path (dirname (fst kv))) acc)
        | Dct v \<Rightarrow>
            (case dict_get v ''path'' (Str []) of
               Str p \<Rightarrow>
                 (case extra_entries (dict_get v ''extra'' (Lst [])) of
                    Inl e \<Rightarrow> Inl e
                  | Inr extras \<Rightarrow>
                      parse_copy (dict_get v ''subsections'' (Lst []))
                        (real_join src_path p) (join dst_path (fst kv))
                        (add_extras (real_join src_path p) (join dst_path (fst kv)) extras acc))
             | _ \<Rightarrow> Inl TypeError)
        | Lst v \<Rightarrow> parse_copy (Lst v) src_path (join dst_path (fst kv)) acc
        | Other \<Rightarrow> Inl PluginRunError)
      kvs to_copy"
| "parse_copy (Str s) src_path dst_path to_copy = Inl PluginRunError"
| "parse_copy Other src_path dst_path to_copy = Inl PluginRunError"
  by pat_completeness auto
termination
  apply (relation "measure (\<lambda>(s, _, _, _). size s)")
     apply simp
    apply (simp add: size_item_cfg)
  subgoal for kvs src_path dst_path to_copy kv acc v
    using size_snd_cfg [of kv kvs] by simp
  subgoal for kvs src_path dst_path to_copy kv acc v
    using size_snd_cfg [of kv kvs] size_dict_get_cfg [of v "''subsections''"] by simp
  done

section \<open>\<open>_parse_structure\<close>: the sidebar\<close>

text \<open>
  \<open>urllib.parse.unquote\<close>. A string without a percent sign is returned as it is.
  Otherwise a percent sign followed by two hexadecimal digits stands for the byte with
  that value (\<open>unquote_to_bytes\<close>), and the bytes are decoded as UTF-8 with
  \<open>errors='replace'\<close>.
\<close>

definition hexval :: "char \<Rightarrow> nat option" where
  "hexval c =
     (let n = of_char c :: nat
      in if 48 \<le> n \<and> n \<le> 57 then Some (n - 48)
         else if 65 \<le> n \<and> n \<le> 70 then Some (n - 55)
         else if 97 \<le> n \<and> n \<le> 102 then Some (n - 87)
         else None)"

fun unquote_to_bytes :: "string \<Rightarrow> string" where
  "unquote_to_bytes [] = []"
| "unquote_to_bytes (c # cs) =
     (if c = CHR ''%'' then
        (case cs of
           h1 # h2 # rest \<Rightarrow>
             (case (hexval h1, hexval h2) of
                (Some a, Some b) \<Rightarrow> char_of (16 * a + b) # unquote_to_bytes rest
              | _ \<Rightarrow> c # unquote_to_bytes cs)
         | _ \<Rightarrow> c # unquote_to_bytes cs)
      else c # unquote_to_bytes cs)"

definition unquote :: "string \<Rightarrow> string" where
  "unquote s =
     (if CHR ''%'' \<notin> set s then s
      else map char_of (decode_replace (map of_char (unquote_to_bytes s))))"

text \<open>
  A sidebar entry is a Python dictionary with the keys \<open>title\<close> and \<open>id\<close> and, for a
  list or dictionary node, \<open>children\<close>.
\<close>

datatype navnode =
  NavNode (title: string) (nid: string) (children: "navnode list option")

text \<open>
  What \<open>for item in v\<close> iterates over: the elements of a list, the keys of a
  dictionary, the characters of a string; anything else is not iterable.
\<close>

fun iterate :: "cfg \<Rightarrow> error + cfg list" where
  "iterate (Lst items) = Inr items"
| "iterate (Dct kvs) = Inr (map (\<lambda>kv. Str (fst kv)) kvs)"
| "iterate (Str s) = Inr (map Str (characters s))"
| "iterate Other = Inl TypeError"

lemma iterate_first_entry_size:
  assumes "iterate v = Inr items" and "item \<in> set items" and "first_entry item = Inr kv"
  shows "size (snd kv) < size v"
proof (cases v)
  case (Lst xs)
  with assms have "item \<in> set xs" by simp
  then have "size item < Suc (size_list size xs)" by (rule size_item_cfg)
  with first_entry_size [OF assms(3)] Lst show ?thesis by simp
next
  case (Dct kvs)
  with assms obtain k where "item = Str k" by auto
  with assms(3) show ?thesis by simp
next
  case (Str s)
  with assms obtain c where "item = Str c" by auto
  with assms(3) show ?thesis by simp
next
  case Other
  with assms show ?thesis by simp
qed

function parse_sidebar :: "string \<Rightarrow> cfg \<Rightarrow> string \<Rightarrow> error + navnode" where
  "parse_sidebar k (Lst v) path =
     (case map_err (\<lambda>item. case first_entry item of
                               Inl e \<Rightarrow> Inl e
                             | Inr kv \<Rightarrow> parse_sidebar (fst kv) (snd kv) (path @ k @ ''/'')) v of
        Inl e \<Rightarrow> Inl e
      | Inr cs \<Rightarrow> Inr (NavNode (unquote (strip sep k)) (path @ k) (Some cs)))"
| "parse_sidebar k (Dct v) path =
     (case map_of v ''subsections'' of
        None \<Rightarrow> Inl KeyError
      | Some subsections \<Rightarrow>
          (case iterate subsections of
             Inl e \<Rightarrow> Inl e
           | Inr items \<Rightarrow>
               (case map_err (\<lambda>item. case first_entry item of
                                        Inl e \<Rightarrow> Inl e
                                      | Inr kv \<Rightarrow> parse_sidebar (fst kv) (snd kv) (path @ k @ ''/''))
                             items of
                  Inl e \<Rightarrow> Inl e
                | Inr cs \<Rightarrow> Inr (NavNode (unquote (strip sep k)) (path @ k) (Some cs)))))"
| "parse_sidebar k (Str v) path =
     (let path' = (if dirname k \<noteq> [] then path @ dirname k @ ''/'' else path);
          ident = (if stem v \<noteq> [] then path' @ stem v
                   else if stem k \<noteq> [] then path' @ stem k
                   else path' @ ''README'')
      in Inr (NavNode (unquote (strip sep k)) ident None))"
| "parse_sidebar k Other path = Inr (NavNode (unquote (strip sep k)) (path @ k) None)"
  by pat_completeness auto
termination
proof (relation "measure (\<lambda>(k, v, path). size v)", goal_cases)
  case 1
  show ?case by simp
next
  case (2 k v path item kv)
  have "iterate (Lst v) = Inr v" by simp
  from iterate_first_entry_size [OF this 2(1) 2(2)] show ?case by simp
next
  case (3 k v path subsections items item kv)
  from iterate_first_entry_size [OF 3(2) 3(3) 3(4)] size_map_of_cfg [OF 3(1)]
  show ?case by simp
qed

text \<open>
  \<open>_parse_structure\<close>: the copy plan first, then one sidebar entry per item of the
  structure; \<open>self.intro\<close> records a top-level key \<open>Introduction\<close>.
\<close>

record parsed =
  to_copy :: "(string \<times> string) set"
  sidebar :: "navnode list"
  intro :: bool

definition parse_structure :: "cfg \<Rightarrow> string \<Rightarrow> string \<Rightarrow> error + parsed" where
  "parse_structure structure cwd docusaurus_dir =
     (case parse_copy structure cwd (join docusaurus_dir ''docs'') {} of
        Inl e \<Rightarrow> Inl e
      | Inr plan \<Rightarrow>
          (case iterate structure of
             Inl e \<Rightarrow> Inl e
           | Inr items \<Rightarrow>
               (case map_err (\<lambda>item. case first_entry item of
                                       Inl e \<Rightarrow> Inl e
                                     | Inr kv \<Rightarrow> parse_sidebar (fst kv) (snd kv) []) items of
                  Inl e \<Rightarrow> Inl e
                | Inr nodes \<Rightarrow>
                    Inr \<lparr>to_copy = plan, sidebar = nodes,
                         intro = (\<exists>item \<in> set items.
                                    case first_entry item of
                                      Inr kv \<Rightarrow> fst kv = ''Introduction''
                                    | Inl e \<Rightarrow> False)\<rparr>)))"

section \<open>The two link patterns\<close>

text \<open>
  The patterns are matched as Python's backtracking matcher does. Each piece of a pattern
  takes the text that is left and a continuation for the rest of the pattern, and a
  successful match returns group 1 with the text after the match.

  \<open>lit\<close> matches a literal; \<open>lazy_dot\<close> is \<open>.*?\<close>: it tries the rest of the pattern
  first and consumes one more character, never a newline, when the rest fails;
  \<open>opt_dot\<close> is the greedy \<open>(?:\.)?\<close>.
\<close>

definition lit :: "string \<Rightarrow> string \<Rightarrow> string option" where
  "lit p s = (if prefix p s then Some (drop (length p) s) else None)"

fun lazy_dot :: "(string \<Rightarrow> string \<Rightarrow> 'a option) \<Rightarrow> string \<Rightarrow> string \<Rightarrow> 'a option" where
  "lazy_dot k seen [] = k seen []"
| "lazy_dot k seen (c # cs) =
     (case k seen (c # cs) of
        Some r \<Rightarrow> Some r
      | None \<Rightarrow> if c = CHR 0x0A then None else lazy_dot k (seen @ [c]) cs)"

definition opt_dot :: "(string \<Rightarrow> string \<Rightarrow> 'a option) \<Rightarrow> string \<Rightarrow> 'a option" where
  "opt_dot k s =
     (case lit ''.'' s of
        Some s' \<Rightarrow> (case k ''.'' s' of Some r \<Rightarrow> Some r | None \<Rightarrow> k [] s)
      | None \<Rightarrow> k [] s)"

text \<open>Group 1 of both patterns, \<open>(\.(?:\.)?\/.*?)\<close>, followed by the rest \<open>k\<close>.\<close>

definition link_path :: "(string \<Rightarrow> string option) \<Rightarrow> string \<Rightarrow> (string \<times> string) option" where
  "link_path k s =
     (case lit ''.'' s of
        None \<Rightarrow> None
      | Some s1 \<Rightarrow>
          opt_dot (\<lambda>d s2.
            case lit ''/'' s2 of
              None \<Rightarrow> None
            | Some s3 \<Rightarrow>
                lazy_dot (\<lambda>g s4.
                  case k s4 of
                    None \<Rightarrow> None
                  | Some rest \<Rightarrow> Some (''.'' @ d @ ''/'' @ g, rest)) [] s3) s1)"

text \<open>\<open>\[.*?\]\((\.(?:\.)?\/.*?)\)\<close>, matched at the start of the text.\<close>

definition md_link_regex :: "string \<Rightarrow> (string \<times> string) option" where
  "md_link_regex s =
     (case lit ''['' s of
        None \<Rightarrow> None
      | Some s1 \<Rightarrow>
          lazy_dot (\<lambda>_ s2.
            case lit '']('' s2 of
              None \<Rightarrow> None
            | Some s3 \<Rightarrow> link_path (lit '')'') s3) [] s1)"

text \<open>\<open><iframe.*?src=\"(\.(?:\.)?\/.*?)\".*?>\<close>, matched at the start of the text.\<close>

definition iframe_link_regex :: "string \<Rightarrow> (string \<times> string) option" where
  "iframe_link_regex s =
     (case lit ''<iframe'' s of
        None \<Rightarrow> None
      | Some s1 \<Rightarrow>
          lazy_dot (\<lambda>_ s2.
            case lit (''src='' @ [CHR 0x22]) s2 of
              None \<Rightarrow> None
            | Some s3 \<Rightarrow>
                link_path (\<lambda>s4.
                  case lit [CHR 0x22] s4 of
                    None \<Rightarrow> None
                  | Some s5 \<Rightarrow> lazy_dot (\<lambda>_ s6. lit ''>'' s6) [] s5) s3) [] s1)"

text \<open>
  \<open>re.finditer\<close>, reduced to group 1 of each match: the leftmost match, then the search
  goes on after it. (Neither pattern matches the empty text; a match that consumed
  nothing would move the search on by one character.)
\<close>

fun finditer :: "(string \<Rightarrow> (string \<times> string) option) \<Rightarrow> string \<Rightarrow> string list" where
  "finditer regex [] = []"
| "finditer regex (c # cs) =
     (case regex (c # cs) of
        None \<Rightarrow> finditer regex cs
      | Some (g, rest) \<Rightarrow>
          if length rest \<le> length cs then g # finditer regex rest
          else g # finditer regex cs)"

section \<open>The file system\<close>

text \<open>
  What the plugin asks of the file system: which paths are regular files (and their
  text) and which are directories. Paths are looked up as the strings the plugin passes.
\<close>

record filesystem =
  files :: "string \<rightharpoonup> string"
  dirs :: "string set"

definition isfile :: "filesystem \<Rightarrow> string \<Rightarrow> bool" where
  "isfile fs p = (files fs p \<noteq> None)"

definition isdir :: "filesystem \<Rightarrow> string \<Rightarrow> bool" where
  "isdir fs p = (p \<in> dirs fs)"

definition path_exists :: "filesystem \<Rightarrow> string \<Rightarrow> bool" where
  "path_exists fs p = (isfile fs p \<or> isdir fs p)"

section \<open>\<open>_resolve_links\<close>\<close>

text \<open>
  A Python dictionary from strings to strings, in insertion order: assigning to a key
  that is present keeps its place.
\<close>

type_synonym pydict = "(string \<times> string) list"

fun dict_set :: "pydict \<Rightarrow> string \<Rightarrow> string \<Rightarrow> pydict" where
  "dict_set [] k v = [(k, v)]"
| "dict_set ((k', v') # d) k v =
     (if k' = k then (k, v) # d else (k', v') # dict_set d k v)"

text \<open>
  The mappings \<open>src_to_dst\<close> and \<open>dst_to_src\<close>. The copy plan is a set; \<open>plan\<close> is
  the order in which Python iterates over it.
\<close>

definition mapped_dst :: "filesystem \<Rightarrow> string \<times> string \<Rightarrow> string" where
  "mapped_dst fs entry =
     (let dst0 = rstrip sep (snd entry)
      in if isfile fs (fst entry) \<and> isdir fs dst0
         then join dst0 (basename (fst entry)) else dst0)"

definition add_mapping ::
  "filesystem \<Rightarrow> string \<times> string \<Rightarrow> pydict \<times> pydict \<Rightarrow> pydict \<times> pydict" where
  "add_mapping fs entry maps =
     (let src' = rstrip sep (fst entry);
          dst' = mapped_dst fs entry
      in (dict_set (fst maps) src' dst', dict_set (snd maps) dst' src'))"

definition create_mappings :: "filesystem \<Rightarrow> (string \<times> string) list \<Rightarrow> pydict \<times> pydict" where
  "create_mappings fs plan = fold (add_mapping fs) plan ([], [])"

text \<open>\<open>_walk_struct\<close>: the ids of the entries that have no children, or an empty list of them.\<close>

fun walk_struct :: "navnode \<Rightarrow> string list" where
  "walk_struct (NavNode t i None) = [i]"
| "walk_struct (NavNode t i (Some [])) = [i]"
| "walk_struct (NavNode t i (Some (c # cs))) = concat (map walk_struct (c # cs))"

text \<open>
  \<open>_possible_src\<close>: the keys of \<open>src_to_dst\<close>, those with more path segments first.
  Python's sort is stable, also with \<open>reverse=True\<close>.
\<close>

definition segments :: "string \<Rightarrow> nat" where
  "segments x = length (split sep (strip sep x))"

definition possible_src :: "pydict \<Rightarrow> string list" where
  "possible_src src_to_dst = sort_key (\<lambda>x. - int (segments x)) (map fst src_to_dst)"

text \<open>Lines 412 to 415: what is written for a new link that contains a space.\<close>

definition space_fix :: "string \<Rightarrow> string" where
  "space_fix dst_link =
     (if contains_char CHR '' '' dst_link
      then replace (''<'' @ dst_link @ ''>'') ''.md'' []
      else dst_link)"

datatype warning = UnresolvedLink (ref: string) (link: string)

text \<open>
  The body of the loop over the matches, for one link, in the steps of the source: the
  first key of \<open>_possible_src\<close> that the reference starts with (lines 381 to 383); the
  reference at the destination (lines 384 to 407); the new text of the link (lines 411 to
  415); and the substitution (line 418). The state is the text of the file and the
  warnings logged so far.
\<close>

definition find_src_key :: "pydict \<Rightarrow> string \<Rightarrow> string option" where
  "find_src_key src_to_dst src_ref = find (\<lambda>x. startswith src_ref x) (possible_src src_to_dst)"

definition dst_ref_of :: "filesystem \<Rightarrow> pydict \<Rightarrow> string \<Rightarrow> string \<Rightarrow> error + string" where
  "dst_ref_of fs src_to_dst src_ref src_key =
     (let src_ref_dir = (if isfile fs src_key then dirname src_key else src_key)
      in case map_of src_to_dst src_key of
           None \<Rightarrow> Inl KeyError
         | Some dst_key \<Rightarrow>
             (let dst_ref_dir = (if isfile fs dst_key then dirname dst_key else dst_key)
              in Inr (real_join dst_ref_dir (lstrip sep (removeprefix src_ref src_ref_dir)))))"

definition new_link ::
  "filesystem \<Rightarrow> string \<Rightarrow> pydict \<Rightarrow> string \<Rightarrow> string \<Rightarrow> string \<Rightarrow> error + string" where
  "new_link fs cwd src_to_dst src_ref src_key dst_dir =
     (case dst_ref_of fs src_to_dst src_ref src_key of
        Inl e \<Rightarrow> Inl e
      | Inr dst_ref \<Rightarrow>
          (case relpath cwd dst_ref dst_dir of
             Inl e \<Rightarrow> Inl e
           | Inr dst_link \<Rightarrow> Inr (space_fix dst_link)))"

definition resolve_link ::
  "filesystem \<Rightarrow> string \<Rightarrow> pydict \<Rightarrow> string \<Rightarrow> string \<Rightarrow> string
     \<Rightarrow> string \<times> warning list \<Rightarrow> error + string \<times> warning list" where
  "resolve_link fs cwd src_to_dst src_dir dst_dir src_link st =
     (let src_ref = real_join src_dir src_link
      in case find_src_key src_to_dst src_ref of
           None \<Rightarrow> Inr (fst st, snd st @ [UnresolvedLink src_ref src_link])
         | Some src_key \<Rightarrow>
             (case new_link fs cwd src_to_dst src_ref src_key dst_dir of
                Inl e \<Rightarrow> Inl e
              | Inr dst_link \<Rightarrow> Inr (replace (fst st) src_link dst_link, snd st)))"

text \<open>
  The body of the loop over \<open>dst_files\<close>, for one id: the state is the file system and
  the warnings. A lookup in \<open>dst_to_src\<close> that finds the empty string counts as not
  found (\<open>if _nfile := ...\<close>). The file is read as text and the matches are searched in
  the text as it was read.
\<close>

definition dst_file :: "filesystem \<Rightarrow> string \<Rightarrow> string \<Rightarrow> string" where
  "dst_file fs docusaurus_dir file =
     (if \<not> path_exists fs (join3 docusaurus_dir ''docs'' (file @ ''.md''))
      then join3 docusaurus_dir ''docs'' (file @ ''.mdx'')
      else join3 docusaurus_dir ''docs'' (file @ ''.md''))"

definition src_dir_of :: "pydict \<Rightarrow> string \<Rightarrow> error + string" where
  "src_dir_of dst_to_src file_path =
     (case map_of dst_to_src file_path of
        Some (c # cs) \<Rightarrow> Inr (dirname (c # cs))
      | _ \<Rightarrow> (case map_of dst_to_src (dirname file_path) of
                None \<Rightarrow> Inl KeyError
              | Some d \<Rightarrow> Inr d))"

definition resolve_file ::
  "string \<Rightarrow> string \<Rightarrow> pydict \<Rightarrow> pydict \<Rightarrow> string
     \<Rightarrow> filesystem \<times> warning list \<Rightarrow> error + filesystem \<times> warning list" where
  "resolve_file cwd docusaurus_dir src_to_dst dst_to_src file st =
     (let fs = fst st;
          file_path = dst_file fs docusaurus_dir file
      in case src_dir_of dst_to_src file_path of
           Inl e \<Rightarrow> Inl e
         | Inr src_dir \<Rightarrow>
             if path_exists fs file_path then
               (case files fs file_path of
                  None \<Rightarrow> Inl IsADirectoryError
                | Some bytes \<Rightarrow>
                    (case read_text bytes of
                       Inl e \<Rightarrow> Inl e
                     | Inr content \<Rightarrow>
                         (case fold_err
                                 (resolve_link fs cwd src_to_dst src_dir (dirname file_path))
                                 (finditer md_link_regex content
                                    @ finditer iframe_link_regex content)
                                 (content, snd st) of
                            Inl e \<Rightarrow> Inl e
                          | Inr (content', warnings) \<Rightarrow>
                              Inr (fs\<lparr>files := (files fs)(file_path \<mapsto> content')\<rparr>,
                                   warnings))))
             else Inr st)"

definition resolve_links ::
  "filesystem \<Rightarrow> string \<Rightarrow> string \<Rightarrow> (string \<times> string) list \<Rightarrow> navnode list
     \<Rightarrow> error + filesystem \<times> warning list" where
  "resolve_links fs cwd docusaurus_dir plan sidebar_nodes =
     (let maps = create_mappings fs plan
      in fold_err (resolve_file cwd docusaurus_dir (fst maps) (snd maps))
           (concat (map walk_struct sidebar_nodes)) (fs, []))"

section \<open>\<open>_organize_files\<close>\<close>

text \<open>
  \<open>_organize_files\<close> (lines 188 to 196) copies every entry of the plan. For an entry
  whose source is a directory, \<open>shutil.copytree(src, dst)\<close> puts the directory at \<open>dst\<close>
  and whatever is at \<open>src/r\<close> at \<open>os.path.join(dst, r)\<close>; for any other entry,
  \<open>shutil.copy(src, dst)\<close> puts the file \<open>src\<close> into the directory \<open>dst\<close> under its own
  name. \<open>copied_to\<close> is the path at which the copy of one entry puts the source path \<open>p\<close>,
  if it copies it, and \<open>new_locations\<close> lists, in normalised form, where the whole plan
  puts \<open>p\<close>.
\<close>

definition copied_to :: "filesystem \<Rightarrow> string \<times> string \<Rightarrow> string \<Rightarrow> string option" where
  "copied_to fs entry p =
     (let src = fst entry; dst = snd entry
      in if isdir fs src then
           (if p = src then Some dst
            else if startswith p (src @ ''/'') then Some (join dst (drop (length src + 1) p))
            else None)
         else if p = src then Some (join dst (basename src))
         else None)"

definition new_locations :: "filesystem \<Rightarrow> (string \<times> string) list \<Rightarrow> string \<Rightarrow> string list" where
  "new_locations fs plan p =
     List.map_filter (\<lambda>entry. map_option normpath (copied_to fs entry p)) plan"

section \<open>Well-formed structure descriptions\<close>

text \<open>
  The shape the two passes agree on. A structure is a list of items; an item is a
  dictionary with one entry, a title and its value; the value is a string (one document),
  a list of items, or a dictionary whose \<open>path\<close>, if present, is a string, whose \<open>extra\<close>,
  if present, is a list of strings, and whose \<open>subsections\<close> is a list of items.
  \<open>node_ok True\<close> requires \<open>subsections\<close> in every dictionary value; \<open>node_ok False\<close>
  lets it be absent, and \<open>lacks_subsections\<close> says that some dictionary value has none.
\<close>

fun sole_entry :: "cfg \<Rightarrow> (string \<times> cfg) option" where
  "sole_entry (Dct [kv]) = Some kv"
| "sole_entry _ = None"

lemma sole_entry_size: "sole_entry item = Some kv \<Longrightarrow> size (snd kv) < size item"
  by (cases item rule: sole_entry.cases; cases kv) auto

definition fields_ok :: "(string \<times> cfg) list \<Rightarrow> bool" where
  "fields_ok d =
     ((case map_of d ''path'' of None \<Rightarrow> True | Some (Str p) \<Rightarrow> True | Some _ \<Rightarrow> False)
      \<and> (case map_of d ''extra'' of
            None \<Rightarrow> True
          | Some (Lst es) \<Rightarrow> list_all (\<lambda>e. case e of Str x \<Rightarrow> True | _ \<Rightarrow> False) es
          | Some _ \<Rightarrow> False))"

function node_ok :: "bool \<Rightarrow> cfg \<Rightarrow> bool" where
  "node_ok strict (Str v) = True"
| "node_ok strict (Lst items) =
     list_all (\<lambda>item. case sole_entry item of
                         Some kv \<Rightarrow> node_ok strict (snd kv)
                       | None \<Rightarrow> False) items"
| "node_ok strict (Dct d) =
     (fields_ok d \<and>
      (case map_of d ''subsections'' of
         None \<Rightarrow> \<not> strict
       | Some (Lst items) \<Rightarrow> node_ok strict (Lst items)
       | Some _ \<Rightarrow> False))"
| "node_ok strict Other = False"
  by pat_completeness auto
termination
proof (relation "measure (\<lambda>(strict, v). size v)", goal_cases)
  case 1
  show ?case by simp
next
  case (2 strict items item kv)
  from sole_entry_size [OF 2(2)] size_item_cfg [OF 2(1)] show ?case by simp
next
  case (3 strict d subs items)
  from size_map_of_cfg [OF 3(1)] 3(2) show ?case by simp
qed

function lacks_subsections :: "cfg \<Rightarrow> bool" where
  "lacks_subsections (Str v) = False"
| "lacks_subsections (Lst items) =
     list_ex (\<lambda>item. case sole_entry item of
                        Some kv \<Rightarrow> lacks_subsections (snd kv)
                      | None \<Rightarrow> False) items"
| "lacks_subsections (Dct d) =
     (case map_of d ''subsections'' of
        None \<Rightarrow> True
      | Some (Lst items) \<Rightarrow> lacks_subsections (Lst items)
      | Some _ \<Rightarrow> False)"
| "lacks_subsections Other = False"
  by pat_completeness auto
termination
proof (relation "measure size", goal_cases)
  case 1
  show ?case by simp
next
  case (2 items item kv)
  from sole_entry_size [OF 2(2)] size_item_cfg [OF 2(1)] show ?case by simp
next
  case (3 d subs items)
  from size_map_of_cfg [OF 3(1)] 3(2) show ?case by simp
qed


abbreviation item_lacks :: "cfg \<Rightarrow> bool" where
  "item_lacks item \<equiv> (case sole_entry item of Some kv \<Rightarrow> lacks_subsections (snd kv) | None \<Rightarrow> False)"

text \<open>
  What the completeness property counts in a structure: the string-valued entries, the
  entries listed under \<open>extra\<close>, and the list or dictionary values without any child
  item. \<open>at_items\<close> adds a count over the items of a list. The leaves of the sidebar
  are the entries \<open>_walk_struct\<close> collects.
\<close>

function string_entries :: "cfg \<Rightarrow> nat" where
  "string_entries (Str v) = 1"
| "string_entries (Lst items) =
     sum_list (map (\<lambda>item. case sole_entry item of
                              Some kv \<Rightarrow> string_entries (snd kv)
                            | None \<Rightarrow> 0) items)"
| "string_entries (Dct d) =
     (case map_of d ''subsections'' of
        Some (Lst items) \<Rightarrow> string_entries (Lst items)
      | _ \<Rightarrow> 0)"
| "string_entries Other = 0"
  by pat_completeness auto
termination
proof (relation "measure size", goal_cases)
  case 1
  show ?case by simp
next
  case (2 items item kv)
  from sole_entry_size [OF 2(2)] size_item_cfg [OF 2(1)] show ?case by simp
next
  case (3 d subs items)
  from size_map_of_cfg [OF 3(1)] 3(2) show ?case by simp
qed

function extra_listed :: "cfg \<Rightarrow> nat" where
  "extra_listed (Str v) = 0"
| "extra_listed (Lst items) =
     sum_list (map (\<lambda>item. case sole_entry item of
                              Some kv \<Rightarrow> extra_listed (snd kv)
                            | None \<Rightarrow> 0) items)"
| "extra_listed (Dct d) =
     (case map_of d ''extra'' of Some (Lst es) \<Rightarrow> length es | _ \<Rightarrow> 0)
     + (case map_of d ''subsections'' of
          Some (Lst items) \<Rightarrow> extra_listed (Lst items)
        | _ \<Rightarrow> 0)"
| "extra_listed Other = 0"
  by pat_completeness auto
termination
proof (relation "measure size", goal_cases)
  case 1
  show ?case by simp
next
  case (2 items item kv)
  from sole_entry_size [OF 2(2)] size_item_cfg [OF 2(1)] show ?case by simp
next
  case (3 d subs items)
  from size_map_of_cfg [OF 3(1)] 3(2) show ?case by simp
qed

function childless :: "cfg \<Rightarrow> nat" where
  "childless (Str v) = 0"
| "childless (Lst items) =
     (if items = [] then 1
      else sum_list (map (\<lambda>item. case sole_entry item of
                                   Some kv \<Rightarrow> childless (snd kv)
                                 | None \<Rightarrow> 0) items))"
| "childless (Dct d) =
     (case map_of d ''subsections'' of
        Some (Lst items) \<Rightarrow> childless (Lst items)
      | _ \<Rightarrow> 0)"
| "childless Other = 0"
  by pat_completeness auto
termination
proof (relation "measure size", goal_cases)
  case 1
  show ?case by simp
next
  case (2 items item kv)
  from sole_entry_size [OF 2(3)] size_item_cfg [OF 2(2)] show ?case by simp
next
  case (3 d subs items)
  from size_map_of_cfg [OF 3(1)] 3(2) show ?case by simp
qed

definition at_items :: "(cfg \<Rightarrow> nat) \<Rightarrow> cfg list \<Rightarrow> nat" where
  "at_items f items =
     sum_list (map (\<lambda>item. case sole_entry item of Some kv \<Rightarrow> f (snd kv) | None \<Rightarrow> 0) items)"

definition leaves :: "navnode list \<Rightarrow> nat" where
  "leaves nodes = length (concat (map walk_struct nodes))"


abbreviation item_leaves :: "cfg \<Rightarrow> nat" where
  "item_leaves item \<equiv>
     (case sole_entry item of
        Some kv \<Rightarrow> string_entries (snd kv) + childless (snd kv)
      | None \<Rightarrow> 0)"

section \<open>Absolute normalised paths\<close>

text \<open>
  An absolute normalised path is a separator followed by its components joined with
  separators; a component is a name: not empty, without a separator, and neither \<open>.\<close> nor
  \<open>..\<close>.
\<close>

definition proper :: "string \<Rightarrow> bool" where
  "proper c = (c \<noteq> [] \<and> sep \<notin> set c \<and> c \<noteq> ''.'' \<and> c \<noteq> ''..'')"

definition names :: "string list \<Rightarrow> bool" where
  "names cs = list_all proper cs"

definition abs_path :: "string list \<Rightarrow> string" where
  "abs_path cs = ''/'' @ join_with ''/'' cs"

text \<open>The components of a path: what stands between its separators.\<close>

definition comps :: "string \<Rightarrow> string list" where
  "comps p = filter (\<lambda>x. x \<noteq> []) (split sep p)"




lemmas path_eval =
  real_join_def join_def join3_def normpath_def startswith_def endswith_def dirname_def
  basename_def initial_slashes_def dict_get_def add_extras_def rstrip_def lstrip_def strip_def
  suffix_to_prefix stem_def splitext_root_def

section \<open>Scenarios\<close>

text \<open>
  The structure \<open>[{"Intro": "intro.md"}, {"Lessons": {"path": "lessons", "subsections":
  [{"Lesson 1": "l1.md"}]}}]\<close>.
\<close>

definition lessons_structure :: cfg where
  "lessons_structure =
     Lst [Dct [(''Intro'', Str ''intro.md'')],
          Dct [(''Lessons'',
                Dct [(''path'', Str ''lessons''),
                     (''subsections'', Lst [Dct [(''Lesson 1'', Str ''l1.md'')]])])]]"

text \<open>
  A content tree under \<open>/src\<close> after it has been copied to \<open>/dst/docs\<close>: the lesson
  \<open>/src/lessons/l1.md\<close> is now \<open>/dst/docs/Lessons/l1.md\<close> and the directory
  \<open>/src/shared\<close> is now \<open>/dst/docs/Shared\<close>. The lesson's text is the parameter.
\<close>

definition lessons_fs :: "string \<Rightarrow> filesystem" where
  "lessons_fs text =
     \<lparr>files = [''/src/lessons/l1.md'' \<mapsto> text,
               ''/src/shared/img/fig1.png'' \<mapsto> ''PNG'',
               ''/dst/docs/Lessons/l1.md'' \<mapsto> text,
               ''/dst/docs/Shared/img/fig1.png'' \<mapsto> ''PNG''],
      dirs = {''/src'', ''/src/lessons'', ''/src/shared'', ''/src/shared/img'',
              ''/dst'', ''/dst/docs'', ''/dst/docs/Lessons'', ''/dst/docs/Shared'',
              ''/dst/docs/Shared/img''}\<rparr>"

definition lessons_sidebar :: "navnode list" where
  "lessons_sidebar =
     [NavNode ''Lessons'' ''Lessons'' (Some [NavNode ''Lesson 1'' ''Lessons/l1'' None])]"

text \<open>
  A second tree: the lesson \<open>/src/lessons/l1.md\<close> is now \<open>/dst/docs/Lessons/l1.md\<close> and
  the picture \<open>/src/lessons/a.png\<close> beside it is now \<open>/dst/docs/Media/a.png\<close>.
  \<open>media_plan\<close> is the copy plan and \<open>media_map\<close> the \<open>src_to_dst\<close> built from it.
\<close>

definition media_fs :: "string \<Rightarrow> filesystem" where
  "media_fs text =
     \<lparr>files = [''/src/lessons/l1.md'' \<mapsto> text,
               ''/src/lessons/a.png'' \<mapsto> ''PNG'',
               ''/dst/docs/Lessons/l1.md'' \<mapsto> text,
               ''/dst/docs/Media/a.png'' \<mapsto> ''PNG''],
      dirs = {''/src'', ''/src/lessons'', ''/dst'', ''/dst/docs'', ''/dst/docs/Lessons'',
              ''/dst/docs/Media''}\<rparr>"

definition media_plan :: "(string \<times> string) list" where
  "media_plan = [(''/src/lessons/l1.md'', ''/dst/docs/Lessons/''),
                 (''/src/lessons/a.png'', ''/dst/docs/Media/'')]"

definition media_map :: pydict where
  "media_map = [(''/src/lessons/l1.md'', ''/dst/docs/Lessons/l1.md''),
                (''/src/lessons/a.png'', ''/dst/docs/Media/a.png'')]"

text \<open>
  Two directories copied as units, \<open>/src/shared\<close> and \<open>/src/shared2\<close>, in one iteration
  order of the copy plan.
\<close>

definition shared_fs :: filesystem where
  "shared_fs =
     \<lparr>files = [''/src/shared/img.png'' \<mapsto> ''PNG'', ''/src/shared2/img.png'' \<mapsto> ''PNG''],
      dirs = {''/src'', ''/src/shared'', ''/src/shared2''}\<rparr>"

definition shared_plan :: "(string \<times> string) list" where
  "shared_plan = [(''/src/shared'', ''/dst/docs/Shared''), (''/src/shared2'', ''/dst/docs/Shared2'')]"

text \<open>
  The structure \<open>[{"Gallery": {"path": "gallery", "extra": ["img"], "subsections":
  [{"Tour": "tour.md"}]}}]\<close>.
\<close>

definition gallery_structure :: cfg where
  "gallery_structure =
     Lst [Dct [(''Gallery'',
                Dct [(''path'', Str ''gallery''),
                     (''extra'', Lst [Str ''img'']),
                     (''subsections'', Lst [Dct [(''Tour'', Str ''tour.md'')]])])]]"







text \<open>What a run of \<open>_resolve_links\<close> leaves in one file, with the warnings it logged.\<close>

definition outcome ::
  "string \<Rightarrow> error + filesystem \<times> warning list \<Rightarrow> error + string option \<times> warning list" where
  "outcome file_path r = map_sum id (\<lambda>st. (files (fst st) file_path, snd st)) r"

section \<open>Properties of the structure parser\<close>

text \<open>
  C2 (as the code has it). For the structure \<open>lessons_structure\<close>, content root
  \<open>/src\<close> and docs root \<open>/dst/docs\<close>, \<open>_parse_structure\<close> succeeds. The copy plan is
  \<open>{(/src/intro.md, /dst/docs/), (/src/lessons/l1.md, /dst/docs/Lessons/)}\<close>: each
  destination is joined with the empty directory part of its key and so ends in a
  separator; with the trailing separators stripped, as \<open>_resolve_links\<close> strips them, the
  destinations are \<open>/dst/docs\<close> and \<open>/dst/docs/Lessons\<close>. The sidebar leaf for Intro has
  the id \<open>intro\<close> and the leaf for Lesson 1 the id \<open>Lessons/l1\<close>.
\<close>

theorem lessons_structure_parsed:
  "parse_structure lessons_structure ''/src'' ''/dst'' =
     Inr \<lparr>to_copy = {(''/src/intro.md'', ''/dst/docs/''),
                      (''/src/lessons/l1.md'', ''/dst/docs/Lessons/'')},
          sidebar = [NavNode ''Intro'' ''intro'' None,
                     NavNode ''Lessons'' ''Lessons''
                       (Some [NavNode ''Lesson 1'' ''Lessons/l1'' None])],
          intro = False\<rparr>
   \<and> map_prod id (rstrip sep) `
         {(''/src/intro.md'', ''/dst/docs/''), (''/src/lessons/l1.md'', ''/dst/docs/Lessons/'')}
       = {(''/src/intro.md'', ''/dst/docs''), (''/src/lessons/l1.md'', ''/dst/docs/Lessons'')}"
  by (simp add: parse_structure_def lessons_structure_def path_eval unquote_def insert_commute)

text \<open>
  C2 (as the claim states it) fails: the copy plan of \<open>lessons_structure\<close> is not the set
  \<open>{(/src/intro.md, /dst/docs), (/src/lessons/l1.md, /dst/docs/Lessons)}\<close>.
\<close>

theorem lessons_structure_plan_differs:
  "map_sum id to_copy (parse_structure lessons_structure ''/src'' ''/dst'')
     \<noteq> Inr {(''/src/intro.md'', ''/dst/docs''), (''/src/lessons/l1.md'', ''/dst/docs/Lessons'')}"
  by (simp add: parse_structure_def lessons_structure_def path_eval insert_commute
        doubleton_eq_iff)

section \<open>Properties of the link resolver\<close>

lemma lessons_maps:
  "create_mappings (lessons_fs t)
        [(''/src/lessons/l1.md'', ''/dst/docs/Lessons/''), (''/src/shared'', ''/dst/docs/Shared'')]
   = ([(''/src/lessons/l1.md'', ''/dst/docs/Lessons/l1.md''), (''/src/shared'', ''/dst/docs/Shared'')],
      [(''/dst/docs/Lessons/l1.md'', ''/src/lessons/l1.md''), (''/dst/docs/Shared'', ''/src/shared'')])"
  by (simp add: create_mappings_def add_mapping_def mapped_dst_def lessons_fs_def isfile_def isdir_def
        path_eval Let_def)

lemma lessons_link_step:
  "resolve_link (lessons_fs t) ''/dst''
      (fst (create_mappings (lessons_fs t)
        [(''/src/lessons/l1.md'', ''/dst/docs/Lessons/''), (''/src/shared'', ''/dst/docs/Shared'')]))
      ''/src/lessons'' ''/dst/docs/Lessons'' ''../shared/img/fig1.png'' (content, ws)
    = Inr (replace content ''../shared/img/fig1.png'' ''../Shared/img/fig1.png'', ws)"
proof -
  have r: "real_join ''/src/lessons'' ''../shared/img/fig1.png'' = ''/src/shared/img/fig1.png''"
    by code_simp
  have k: "find_src_key [(''/src/lessons/l1.md'', ''/dst/docs/Lessons/l1.md''), (''/src/shared'', ''/dst/docs/Shared'')]
             ''/src/shared/img/fig1.png'' = Some ''/src/shared''"
    by code_simp
  have f: "\<not> isfile (lessons_fs t) ''/src/shared''" "\<not> isfile (lessons_fs t) ''/dst/docs/Shared''"
    by (simp_all add: isfile_def lessons_fs_def)
  have d: "real_join ''/dst/docs/Shared'' (lstrip sep (removeprefix ''/src/shared/img/fig1.png'' ''/src/shared''))
             = ''/dst/docs/Shared/img/fig1.png''"
    by code_simp
  have l: "relpath ''/dst'' ''/dst/docs/Shared/img/fig1.png'' ''/dst/docs/Lessons'' = Inr ''../Shared/img/fig1.png''"
    by code_simp
  have s: "space_fix ''../Shared/img/fig1.png'' = ''../Shared/img/fig1.png''"
    by code_simp
  show ?thesis
    by (simp add: lessons_maps resolve_link_def new_link_def dst_ref_of_def r k f d l s)
qed

text \<open>
  C3. The file \<open>/dst/docs/Lessons/l1.md\<close> came from \<open>/src/lessons/l1.md\<close> and holds the
  link \<open>[see](../shared/img/fig1.png)\<close>; the copy plan maps the directory \<open>/src/shared\<close> to
  \<open>/dst/docs/Shared\<close>. In either order of the copy plan, \<open>_resolve_links\<close> rewrites the
  link to \<open>../Shared/img/fig1.png\<close>, relative to the directory of the file, and logs no
  warning. Whatever else the file holds, the step for this link substitutes
  \<open>../Shared/img/fig1.png\<close> for \<open>../shared/img/fig1.png\<close>.
\<close>

theorem shared_figure_link_rewritten:
  "outcome ''/dst/docs/Lessons/l1.md''
     (resolve_links (lessons_fs ''[see](../shared/img/fig1.png)'') ''/dst'' ''/dst''
        [(''/src/lessons/l1.md'', ''/dst/docs/Lessons/''), (''/src/shared'', ''/dst/docs/Shared'')]
        lessons_sidebar)
     = Inr (Some ''[see](../Shared/img/fig1.png)'', [])
   \<and> outcome ''/dst/docs/Lessons/l1.md''
     (resolve_links (lessons_fs ''[see](../shared/img/fig1.png)'') ''/dst'' ''/dst''
        [(''/src/shared'', ''/dst/docs/Shared''), (''/src/lessons/l1.md'', ''/dst/docs/Lessons/'')]
        lessons_sidebar)
     = Inr (Some ''[see](../Shared/img/fig1.png)'', [])
   \<and> resolve_link (lessons_fs t) ''/dst''
       (fst (create_mappings (lessons_fs t)
          [(''/src/lessons/l1.md'', ''/dst/docs/Lessons/''), (''/src/shared'', ''/dst/docs/Shared'')]))
       ''/src/lessons'' ''/dst/docs/Lessons'' ''../shared/img/fig1.png'' (content, ws)
     = Inr (replace content ''../shared/img/fig1.png'' ''../Shared/img/fig1.png'', ws)"
proof -
  have "outcome ''/dst/docs/Lessons/l1.md''
     (resolve_links (lessons_fs ''[see](../shared/img/fig1.png)'') ''/dst'' ''/dst''
        [(''/src/lessons/l1.md'', ''/dst/docs/Lessons/''), (''/src/shared'', ''/dst/docs/Shared'')]
        lessons_sidebar)
     = Inr (Some ''[see](../Shared/img/fig1.png)'', [])"
    by code_simp
  moreover have "outcome ''/dst/docs/Lessons/l1.md''
     (resolve_links (lessons_fs ''[see](../shared/img/fig1.png)'') ''/dst'' ''/dst''
        [(''/src/shared'', ''/dst/docs/Shared''), (''/src/lessons/l1.md'', ''/dst/docs/Lessons/'')]
        lessons_sidebar)
     = Inr (Some ''[see](../Shared/img/fig1.png)'', [])"
    by code_simp
  ultimately show ?thesis using lessons_link_step by simp
qed

text \<open>
  C6 (where the code departs from it). A new link with a space is put in angle brackets,
  and then every occurrence of the text \<open>.md\<close> is deleted from it, not a document
  extension at its end: the extension \<open>.mdx\<close> is left as \<open>x\<close>, and \<open>.md\<close> inside a directory
  name is deleted too.
\<close>

theorem space_fix_deletes_inside:
  "space_fix ''../My Notes/page.mdx'' = ''<../My Notes/pagex>''
   \<and> space_fix ''../lab.md files/a b.png'' = ''<../lab files/a b.png>''"
  by code_simp

text \<open>
  C8 (where the code departs from it). The structure \<open>[{"Guide": []}]\<close> gives an empty
  copy plan and one sidebar entry without children, whose id names no file with either
  extension. \<open>_resolve_links\<close> looks up the source directory of the file before it tests
  whether the file exists, and the lookup raises \<open>KeyError\<close>.
\<close>

theorem missing_file_raises:
  "map_sum id (\<lambda>p. (to_copy p, sidebar p)) (parse_structure (Lst [Dct [(''Guide'', Lst [])]]) ''/src'' ''/dst'')
     = Inr ({}, [NavNode ''Guide'' ''Guide'' (Some [])])
   \<and> \<not> path_exists \<lparr>files = Map.empty, dirs = {''/dst'', ''/dst/docs''}\<rparr> ''/dst/docs/Guide.md''
   \<and> \<not> path_exists \<lparr>files = Map.empty, dirs = {''/dst'', ''/dst/docs''}\<rparr> ''/dst/docs/Guide.mdx''
   \<and> outcome ''/dst/docs/Guide.md''
         (resolve_links \<lparr>files = Map.empty, dirs = {''/dst'', ''/dst/docs''}\<rparr> ''/dst'' ''/dst'' []
            [NavNode ''Guide'' ''Guide'' (Some [])])
       = Inl KeyError"
  by code_simp

section \<open>Facts about the steps of the link resolver\<close>

lemma set_possible_src: "set (possible_src d) = fst ` set d"
  by (simp add: possible_src_def)

lemma find_src_key_None:
  "find_src_key d r = None \<longleftrightarrow> (\<forall>k \<in> fst ` set d. \<not> startswith r k)"
  by (simp add: find_src_key_def find_None_iff set_possible_src)

lemma find_src_key_Some:
  assumes "find_src_key d r = Some k"
  shows "k \<in> fst ` set d" and "startswith r k"
  using assms by (auto simp: find_src_key_def find_Some_iff set_possible_src [symmetric])










lemma media_map_built: "fst (create_mappings (media_fs text) media_plan) = media_map"
  by code_simp



section \<open>Unresolved and resolved links\<close>

text \<open>
  When no key of \<open>src_to_dst\<close> is a prefix of the reference path of a link, the step for
  that match logs exactly one warning, which names the reference and the link,
  substitutes nothing and raises no error.
\<close>

lemma unresolved_link_warns_once:
  assumes "\<forall>k \<in> fst ` set src_to_dst. \<not> startswith (real_join src_dir src_link) k"
  shows "resolve_link fs cwd src_to_dst src_dir dst_dir src_link (content, ws)
           = Inr (content, ws @ [UnresolvedLink (real_join src_dir src_link) src_link])"
proof -
  from assms have "find_src_key src_to_dst (real_join src_dir src_link) = None"
    by (simp add: find_src_key_None)
  then show ?thesis by (simp add: resolve_link_def)
qed

text \<open>
  C5 (where the code departs from it). The file holds \<open>[one](./a.png) [two](../a.png)\<close>.
  The reference of the second link is \<open>/src/a.png\<close>: no key of \<open>src_to_dst\<close> is a prefix
  of it and it is a prefix of no key. The run logs one warning for it and skips it, and
  raises no error, but the link does not stay as it was: the substitution made for the
  first link (line 418) replaces the text \<open>./a.png\<close> wherever it stands, also inside
  \<open>../a.png\<close>, and the file ends with \<open>[two](.../Media/a.png)\<close>.
\<close>

theorem unresolved_link_text_changed:
  "find_src_key (fst (create_mappings (media_fs ''[one](./a.png) [two](../a.png)'') media_plan))
       (real_join ''/src/lessons'' ''../a.png'') = None
   \<and> real_join ''/src/lessons'' ''../a.png'' = ''/src/a.png''
   \<and> \<not> prefix ''/src/a.png'' ''/src/lessons/l1.md''
   \<and> \<not> prefix ''/src/a.png'' ''/src/lessons/a.png''
   \<and> outcome ''/dst/docs/Lessons/l1.md''
         (resolve_links (media_fs ''[one](./a.png) [two](../a.png)'') ''/dst'' ''/dst''
            media_plan lessons_sidebar)
       = Inr (Some ''[one](../Media/a.png) [two](.../Media/a.png)'',
              [UnresolvedLink ''/src/a.png'' ''../a.png''])"
  by code_simp



section \<open>The key a reference is found under\<close>

lemma split_nonempty: "split c s \<noteq> []"
  by (induction s) (auto split: list.splits)

lemma length_split: "length (split c s) = Suc (length (filter (\<lambda>a. a = c) s))"
proof (induction s)
  case Nil then show ?case by simp
next
  case (Cons a s)
  then show ?case using split_nonempty [of c s] by (auto split: list.splits)
qed

lemma rstrip_id: "s = [] \<or> last s \<noteq> c \<Longrightarrow> rstrip c s = s"
  by (cases s rule: rev_cases) (auto simp: rstrip_def)

lemma rstrip_no_trailing: "rstrip c s = [] \<or> last (rstrip c s) \<noteq> c"
proof (cases "dropWhile (\<lambda>x. x = c) (rev s)")
  case Nil then show ?thesis by (simp add: rstrip_def)
next
  case (Cons a as)
  then have "a \<noteq> c" using hd_dropWhile [of "\<lambda>x. x = c" "rev s"] by auto
  with Cons show ?thesis by (simp add: rstrip_def)
qed

lemma segments_no_trailing:
  assumes "x \<noteq> []" and "last x \<noteq> sep"
  shows "segments x = Suc (length (filter (\<lambda>a. a = sep) (dropWhile (\<lambda>a. a = sep) x)))"
proof -
  have mem: "last x \<in> set x" using assms(1) by simp
  then have ne: "dropWhile (\<lambda>a. a = sep) x \<noteq> []"
    using assms(2) by (auto simp: dropWhile_eq_Nil_conv)
  have "last (dropWhile (\<lambda>a. a = sep) x) = last x"
    using ne by (metis append_Nil2  last_appendR takeWhile_dropWhile_id)
  with ne assms(2) have "rstrip sep (dropWhile (\<lambda>a. a = sep) x) = dropWhile (\<lambda>a. a = sep) x"
    by (simp add: rstrip_id)
  then show ?thesis by (simp add: segments_def strip_def lstrip_def length_split)
qed

lemma segments_pos: "1 \<le> segments x"
  by (simp add: segments_def length_split)

lemma segments_mono:
  assumes "prefix x y" and "x = [] \<or> last x \<noteq> sep" and "y = [] \<or> last y \<noteq> sep"
  shows "segments x \<le> segments y"
proof (cases "x = []")
  case True
  then have "segments x = 1" by (simp add: segments_def strip_def lstrip_def rstrip_def)
  with segments_pos [of y] show ?thesis by simp
next
  case False
  with assms(2) have lx: "last x \<noteq> sep" by simp
  from assms(1) obtain t where y: "y = x @ t" by (auto simp: prefix_def)
  with False assms(3) have ly: "y \<noteq> []" "last y \<noteq> sep" by auto
  have "last x \<in> set x" using False by simp
  with lx have "dropWhile (\<lambda>a. a = sep) (x @ t) = dropWhile (\<lambda>a. a = sep) x @ t"
    by (intro dropWhile_append1) auto
  then show ?thesis
    using segments_no_trailing [OF False lx] segments_no_trailing [OF ly] y by simp
qed

lemma find_sorted_least:
  assumes "sorted (map f ys)" and "find P ys = Some k" and "y \<in> set ys" and "P y"
  shows "f k \<le> f y"
  using assms
proof (induction ys)
  case Nil then show ?case by simp
next
  case (Cons a ys)
  show ?case
  proof (cases "P a")
    case True
    with Cons.prems show ?thesis by auto
  next
    case False
    with Cons.prems have "find P ys = Some k" "y \<in> set ys" "sorted (map f ys)" by auto
    with Cons.IH Cons.prems(4) show ?thesis by blast
  qed
qed

lemma find_src_key_most_segments:
  assumes "find_src_key d r = Some k" and "y \<in> fst ` set d" and "startswith r y"
  shows "segments y \<le> segments k"
proof -
  have "sorted (map (\<lambda>x. - int (segments x)) (possible_src d))"
    by (simp add: possible_src_def)
  moreover have "y \<in> set (possible_src d)" using assms(2) by (simp add: set_possible_src)
  ultimately have "- int (segments k) \<le> - int (segments y)"
    using assms(1,3) unfolding find_src_key_def
    by (intro find_sorted_least [where P = "\<lambda>x. startswith r x" and ys = "possible_src d"]) auto
  then show ?thesis by simp
qed

lemma find_src_key_exists:
  assumes "y \<in> fst ` set d" and "startswith r y"
  shows "\<exists>k. find_src_key d r = Some k"
proof (cases "find_src_key d r")
  case None
  with assms show ?thesis by (auto simp: find_src_key_None)
qed simp

lemma keys_dict_set: "fst ` set (dict_set d k v) = insert k (fst ` set d)"
  by (induction d k v rule: dict_set.induct) auto

lemma keys_add_mapping:
  "fst ` set (fst (add_mapping fs e m)) = insert (rstrip sep (fst e)) (fst ` set (fst m))"
  by (simp add: add_mapping_def Let_def keys_dict_set)

lemma keys_create_mappings_fold:
  "fst ` set (fst (fold (add_mapping fs) plan acc))
   = fst ` set (fst acc) \<union> (\<lambda>e. rstrip sep (fst e)) ` set plan"
  by (induction plan arbitrary: acc) (auto simp: keys_add_mapping)

lemma keys_create_mappings:
  "fst ` set (fst (create_mappings fs plan)) = (\<lambda>e. rstrip sep (fst e)) ` set plan"
  unfolding create_mappings_def by (simp add: keys_create_mappings_fold)

lemma keys_no_trailing:
  "k \<in> fst ` set (fst (create_mappings fs plan)) \<Longrightarrow> k = [] \<or> last k \<noteq> sep"
  using rstrip_no_trailing by (auto simp: keys_create_mappings)

text \<open>
  When some key of \<open>src_to_dst\<close> is a prefix of the reference path, the resolver selects
  a key that is a prefix of the reference path and has the most path segments among such
  keys. When no other prefix key has as many segments, the selected key is also the
  longest prefix key.
\<close>

lemma selects_most_segments:
  assumes "k' \<in> fst ` set (fst (create_mappings fs plan))" and "startswith src_ref k'"
  shows "\<exists>k. find_src_key (fst (create_mappings fs plan)) src_ref = Some k
           \<and> k \<in> fst ` set (fst (create_mappings fs plan))
           \<and> startswith src_ref k
           \<and> segments k' \<le> segments k
           \<and> ((\<forall>x \<in> fst ` set (fst (create_mappings fs plan)).
                  startswith src_ref x \<and> x \<noteq> k \<longrightarrow> segments x \<noteq> segments k)
                \<longrightarrow> length k' \<le> length k)"
proof -
  let ?d = "fst (create_mappings fs plan)"
  from find_src_key_exists [OF assms] obtain k where k: "find_src_key ?d src_ref = Some k"
    by blast
  note kk = find_src_key_Some [OF k]
  have most: "segments k' \<le> segments k"
    using k assms by (rule find_src_key_most_segments)
  have "length k' \<le> length k"
    if uniq: "\<forall>x \<in> fst ` set ?d. startswith src_ref x \<and> x \<noteq> k \<longrightarrow> segments x \<noteq> segments k"
  proof (rule ccontr)
    assume "\<not> length k' \<le> length k"
    then have len: "length k \<le> length k'" "k' \<noteq> k" by auto
    from kk(2) assms(2) have "prefix k src_ref" "prefix k' src_ref"
      by (simp_all add: startswith_def)
    with len(1) have "prefix k k'" by (metis prefix_length_prefix)
    then have "segments k \<le> segments k'"
      using keys_no_trailing [OF kk(1)] keys_no_trailing [OF assms(1)] by (rule segments_mono)
    with most have "segments k' = segments k" by simp
    with uniq assms len(2) show False by blast
  qed
  with k kk most show ?thesis by blast
qed

text \<open>
  C4 (where the code departs from it). The plan copies the directories \<open>/src/shared\<close> and
  \<open>/src/shared2\<close>, and a link refers to \<open>/src/shared2/img.png\<close>, which the plan puts at
  \<open>/dst/docs/Shared2/img.png\<close>. The longest key that is a prefix of the reference is
  \<open>/src/shared2\<close>. With the keys in the order \<open>/src/shared\<close>, \<open>/src/shared2\<close> the
  resolver selects \<open>/src/shared\<close>: both keys have two segments, the stable sort leaves
  them in the order of the dictionary, and \<open>startswith\<close> compares text, not path segments.
  The reference at the destination becomes \<open>/dst/docs/Shared/2/img.png\<close>. With the keys
  in the other order the resolver selects \<open>/src/shared2\<close>.
\<close>

theorem shorter_key_selected:
  "find_src_key (fst (create_mappings shared_fs shared_plan)) ''/src/shared2/img.png''
     = Some ''/src/shared''
   \<and> map_of (fst (create_mappings shared_fs shared_plan)) ''/src/shared2'' = Some ''/dst/docs/Shared2''
   \<and> startswith ''/src/shared2/img.png'' ''/src/shared2''
   \<and> length ''/src/shared'' < length ''/src/shared2''
   \<and> segments ''/src/shared'' = segments ''/src/shared2''
   \<and> dst_ref_of shared_fs (fst (create_mappings shared_fs shared_plan)) ''/src/shared2/img.png''
        ''/src/shared''
       = Inr ''/dst/docs/Shared/2/img.png''
   \<and> new_locations shared_fs shared_plan ''/src/shared2/img.png'' = [''/dst/docs/Shared2/img.png'']
   \<and> find_src_key (fst (create_mappings shared_fs (rev shared_plan))) ''/src/shared2/img.png''
       = Some ''/src/shared2''
   \<and> dst_ref_of shared_fs (fst (create_mappings shared_fs (rev shared_plan))) ''/src/shared2/img.png''
        ''/src/shared2''
       = Inr ''/dst/docs/Shared2/img.png''"
  by code_simp

section \<open>Both passes on well-formed structures\<close>

lemma sole_entry_SomeD: "sole_entry item = Some kv \<Longrightarrow> item = Dct [kv]"
  by (cases item rule: sole_entry.cases) auto

lemma fold_err_ok:
  assumes "\<And>x s. x \<in> set xs \<Longrightarrow> \<exists>r. f x s = Inr r"
  shows "\<exists>r. fold_err f xs s = Inr r"
  using assms
proof (induction xs arbitrary: s)
  case Nil then show ?case by simp
next
  case (Cons x xs)
  from Cons.prems [of x s] obtain r where r: "f x s = Inr r" by auto
  from Cons.IH [of r] Cons.prems obtain r' where "fold_err f xs r = Inr r'" by auto
  with r show ?case by simp
qed

lemma extra_entries_ok:
  assumes "list_all (\<lambda>e. case e of Str x \<Rightarrow> True | _ \<Rightarrow> False) es"
  shows "\<exists>r. map_err (\<lambda>x. case x of Str e \<Rightarrow> Inr e | _ \<Rightarrow> Inl AttributeError) es = Inr r"
  using assms by (induction es) (auto split: cfg.splits)

lemma fields_ok_path:
  "fields_ok d \<Longrightarrow> \<exists>p. dict_get d ''path'' (Str []) = Str p"
  by (auto simp: fields_ok_def dict_get_def split: option.splits cfg.splits)

lemma fields_ok_extra:
  "fields_ok d \<Longrightarrow> \<exists>r. extra_entries (dict_get d ''extra'' (Lst [])) = Inr r"
  using extra_entries_ok
  by (auto simp: fields_ok_def dict_get_def split: option.splits cfg.splits)

lemma parse_copy_single:
  "parse_copy (Dct [(k, v)]) src dst acc =
     (case v of
        Str s \<Rightarrow> Inr (insert (real_join src s, join dst (dirname k)) acc)
      | Dct d \<Rightarrow>
          (case dict_get d ''path'' (Str []) of
             Str p \<Rightarrow>
               (case extra_entries (dict_get d ''extra'' (Lst [])) of
                  Inl e \<Rightarrow> Inl e
                | Inr extras \<Rightarrow>
                    parse_copy (dict_get d ''subsections'' (Lst []))
                      (real_join src p) (join dst k)
                      (add_extras (real_join src p) (join dst k) extras acc))
           | _ \<Rightarrow> Inl TypeError)
      | Lst l \<Rightarrow> parse_copy (Lst l) src (join dst k) acc
      | Other \<Rightarrow> Inl PluginRunError)"
  by (simp split: cfg.splits sum.splits)

lemma parse_copy_ok:
  "node_ok strict v \<Longrightarrow>
     (\<forall>k src dst acc. \<exists>r. parse_copy (Dct [(k, v)]) src dst acc = Inr r)
   \<and> (\<forall>items. v = Lst items \<longrightarrow> (\<forall>src dst acc. \<exists>r. parse_copy v src dst acc = Inr r))"
proof (induction strict v rule: node_ok.induct)
  case (1 strict v)
  show ?case by (simp add: parse_copy_single del: parse_copy.simps)
next
  case (2 strict items)
  have lst: "\<exists>r. parse_copy (Lst items) src dst acc = Inr r" for src dst acc
  proof -
    have "\<exists>r. parse_copy x src dst s = Inr r" if "x \<in> set items" for x s
    proof -
      from that "2.prems" obtain kv where kv: "sole_entry x = Some kv" "node_ok strict (snd kv)"
        by (auto simp: list_all_iff split: option.splits)
      from "2.IH" [OF that kv] have "\<exists>r. parse_copy (Dct [(fst kv, snd kv)]) src dst s = Inr r"
        by blast
      with sole_entry_SomeD [OF kv(1)] show ?thesis by simp
    qed
    then have "\<exists>r. fold_err (\<lambda>item acc. parse_copy item src dst acc) items acc = Inr r"
      by (intro fold_err_ok) auto
    then show ?thesis by simp
  qed
  then show ?case by (simp add: parse_copy_single del: parse_copy.simps)
next
  case (3 strict d)
  from "3.prems" have f: "fields_ok d" by simp
  from fields_ok_path [OF f] obtain p where p: "dict_get d ''path'' (Str []) = Str p" by blast
  from fields_ok_extra [OF f] obtain ex where ex: "extra_entries (dict_get d ''extra'' (Lst [])) = Inr ex"
    by blast
  have sub: "\<exists>r. parse_copy (dict_get d ''subsections'' (Lst [])) src dst acc = Inr r" for src dst acc
  proof (cases "map_of d ''subsections''")
    case None
    then show ?thesis by (simp add: dict_get_def)
  next
    case (Some subs)
    with "3.prems" obtain items where items: "subs = Lst items" "node_ok strict (Lst items)"
      by (auto split: cfg.splits)
    from "3.IH" [OF Some items] have "\<exists>r. parse_copy (Lst items) src dst acc = Inr r" by blast
    with Some items show ?thesis by (simp add: dict_get_def del: parse_copy.simps)
  qed
  show ?case using sub by (simp add: parse_copy_single p ex del: parse_copy.simps)
next
  case (4 strict)
  then show ?case by simp
qed

lemma map_err_keyerror:
  assumes "\<And>x. x \<in> set xs \<Longrightarrow> (bad x \<longrightarrow> f x = Inl KeyError) \<and> (\<not> bad x \<longrightarrow> (\<exists>y. f x = Inr y))"
  shows "(list_ex bad xs \<longrightarrow> map_err f xs = Inl KeyError)
       \<and> (\<not> list_ex bad xs \<longrightarrow> (\<exists>ys. map_err f xs = Inr ys))"
  using assms
proof (induction xs)
  case Nil then show ?case by simp
next
  case (Cons x xs)
  then have ih: "(list_ex bad xs \<longrightarrow> map_err f xs = Inl KeyError)
       \<and> (\<not> list_ex bad xs \<longrightarrow> (\<exists>ys. map_err f xs = Inr ys))" by simp
  from Cons.prems [of x] have x: "(bad x \<longrightarrow> f x = Inl KeyError) \<and> (\<not> bad x \<longrightarrow> (\<exists>y. f x = Inr y))"
    by simp
  show ?case
  proof (cases "bad x")
    case True
    with x show ?thesis by simp
  next
    case False
    with x obtain y where "f x = Inr y" by blast
    with False ih show ?thesis by auto
  qed
qed

lemma parse_sidebar_keyerror:
  "node_ok False v \<Longrightarrow>
     (lacks_subsections v \<longrightarrow> (\<forall>k path. parse_sidebar k v path = Inl KeyError))
   \<and> (\<not> lacks_subsections v \<longrightarrow> (\<forall>k path. \<exists>n. parse_sidebar k v path = Inr n))"
proof (induction "False" v rule: node_ok.induct)
  case (1 v)
  show ?case by (simp add: Let_def)
next
  case (2 items)
  have step: "(item_lacks x \<longrightarrow>
                 (case first_entry x of Inl e \<Rightarrow> Inl e
                  | Inr kv \<Rightarrow> parse_sidebar (fst kv) (snd kv) p) = Inl KeyError)
            \<and> (\<not> item_lacks x \<longrightarrow>
                 (\<exists>y. (case first_entry x of Inl e \<Rightarrow> Inl e
                  | Inr kv \<Rightarrow> parse_sidebar (fst kv) (snd kv) p) = Inr y))"
    if "x \<in> set items" for x p
  proof -
    from that "2.prems" obtain kv where kv: "sole_entry x = Some kv" "node_ok False (snd kv)"
      by (auto simp: list_all_iff split: option.splits)
    from sole_entry_SomeD [OF kv(1)] have fe: "first_entry x = Inr kv" by simp
    from "2.hyps" [OF that kv] kv(1) fe show ?thesis by simp
  qed
  have "(list_ex item_lacks items \<longrightarrow>
            map_err (\<lambda>item. case first_entry item of Inl e \<Rightarrow> Inl e
                  | Inr kv \<Rightarrow> parse_sidebar (fst kv) (snd kv) p) items = Inl KeyError)
      \<and> (\<not> list_ex item_lacks items \<longrightarrow>
            (\<exists>ys. map_err (\<lambda>item. case first_entry item of Inl e \<Rightarrow> Inl e
                  | Inr kv \<Rightarrow> parse_sidebar (fst kv) (snd kv) p) items = Inr ys))" for p
    by (rule map_err_keyerror) (use step in blast)
  note me = this
  show ?case
  proof (cases "list_ex item_lacks items")
    case True
    with me show ?thesis by simp
  next
    case False
    have "\<exists>n. parse_sidebar k (Lst items) path = Inr n" for k path
    proof -
      from me [of "path @ k @ ''/''"] False obtain ys where
        "map_err (\<lambda>item. case first_entry item of Inl e \<Rightarrow> Inl e
                  | Inr kv \<Rightarrow> parse_sidebar (fst kv) (snd kv) (path @ k @ ''/'')) items = Inr ys"
        by blast
      then show ?thesis by simp
    qed
    with False show ?thesis by (simp del: parse_sidebar.simps)
  qed
next
  case (3 d)
  show ?case
  proof (cases "map_of d ''subsections''")
    case None
    then show ?thesis by simp
  next
    case (Some subs)
    with "3.prems" obtain items where items: "subs = Lst items" "node_ok False (Lst items)"
      by (auto split: cfg.splits)
    note ih = "3.hyps" [OF Some items]
    have eq: "parse_sidebar k (Dct d) path =
               (case parse_sidebar k (Lst items) path of Inl e \<Rightarrow> Inl e | Inr n \<Rightarrow> Inr n)" for k path
      using Some items by (simp split: sum.splits)
    show ?thesis
    proof (cases "lacks_subsections (Lst items)")
      case True
      with ih have "parse_sidebar k (Lst items) path = Inl KeyError" for k path by blast
      with eq True Some items show ?thesis by (simp del: parse_sidebar.simps lacks_subsections.simps(2))
    next
      case False
      with ih have "\<exists>n. parse_sidebar k (Lst items) path = Inr n" for k path by blast
      then have "\<exists>n. parse_sidebar k (Dct d) path = Inr n" for k path
        using eq [of k path] by (metis sum.case(2))
      with False Some items show ?thesis by (simp del: parse_sidebar.simps lacks_subsections.simps(2))
    qed
  qed
next
  case 4
  then show ?case by simp
qed


lemma children_keyerror:
  assumes "node_ok False (Lst items)"
  shows "(list_ex item_lacks items \<longrightarrow>
            map_err (\<lambda>item. case first_entry item of Inl e \<Rightarrow> Inl e
                  | Inr kv \<Rightarrow> parse_sidebar (fst kv) (snd kv) p) items = Inl KeyError)
      \<and> (\<not> list_ex item_lacks items \<longrightarrow>
            (\<exists>ys. map_err (\<lambda>item. case first_entry item of Inl e \<Rightarrow> Inl e
                  | Inr kv \<Rightarrow> parse_sidebar (fst kv) (snd kv) p) items = Inr ys))"
proof (rule map_err_keyerror)
  fix x assume x: "x \<in> set items"
  with assms obtain kv where kv: "sole_entry x = Some kv" "node_ok False (snd kv)"
    by (auto simp: list_all_iff split: option.splits)
  from sole_entry_SomeD [OF kv(1)] have fe: "first_entry x = Inr kv" by simp
  from parse_sidebar_keyerror [OF kv(2)] kv(1) fe
  show "(item_lacks x \<longrightarrow>
                 (case first_entry x of Inl e \<Rightarrow> Inl e
                  | Inr kv \<Rightarrow> parse_sidebar (fst kv) (snd kv) p) = Inl KeyError)
            \<and> (\<not> item_lacks x \<longrightarrow>
                 (\<exists>y. (case first_entry x of Inl e \<Rightarrow> Inl e
                  | Inr kv \<Rightarrow> parse_sidebar (fst kv) (snd kv) p) = Inr y))"
    by simp
qed

text \<open>
  C9. Take a structure that is well formed except that dictionary values may lack
  \<open>subsections\<close>, and in which some dictionary value does lack it. The copy-plan pass
  succeeds (it reads \<open>subsections\<close> with an empty default), and \<open>_parse_structure\<close> ends
  with the \<open>KeyError\<close> of the sidebar pass, not with \<open>PluginRunError\<close>.
\<close>

theorem missing_subsections_raises_keyerror:
  assumes "node_ok False (Lst items)" and "lacks_subsections (Lst items)"
  shows "(\<exists>plan. parse_copy (Lst items) cwd (join docusaurus_dir ''docs'') {} = Inr plan)
       \<and> parse_structure (Lst items) cwd docusaurus_dir = Inl KeyError"
proof -
  from parse_copy_ok [OF assms(1)] obtain plan where
    plan: "parse_copy (Lst items) cwd (join docusaurus_dir ''docs'') {} = Inr plan"
    by blast
  from assms(2) have "list_ex item_lacks items" by simp
  with children_keyerror [OF assms(1), of "[]"] have
    "map_err (\<lambda>item. case first_entry item of Inl e \<Rightarrow> Inl e
                  | Inr kv \<Rightarrow> parse_sidebar (fst kv) (snd kv) []) items = Inl KeyError"
    by blast
  with plan show ?thesis
    by (simp add: parse_structure_def del: parse_copy.simps)
qed

theorem missing_subsections_raises_keyerror_witness:
  "parse_structure (Lst [Dct [(''Lessons'', Dct [(''path'', Str ''lessons'')])]]) ''/src'' ''/dst''
     = Inl KeyError"
proof -
  have 1: "node_ok False (Lst [Dct [(''Lessons'', Dct [(''path'', Str ''lessons'')])]])"
    by (simp add: fields_ok_def)
  have 2: "lacks_subsections (Lst [Dct [(''Lessons'', Dct [(''path'', Str ''lessons'')])]])"
    by simp
  from missing_subsections_raises_keyerror [OF 1 2] show ?thesis by blast
qed

section \<open>The leaves of the sidebar\<close>

lemma node_ok_item:
  "node_ok strict (Lst items) \<Longrightarrow> item \<in> set items \<Longrightarrow> sole_entry item = Some kv
     \<Longrightarrow> node_ok strict (snd kv)"
  by (cases kv) (auto simp: list_all_iff split: option.splits)

lemma map_err_sum:
  assumes "\<And>x. x \<in> set xs \<Longrightarrow> \<exists>y. f x = Inr y \<and> m y = w x"
  shows "\<exists>ys. map_err f xs = Inr ys \<and> length ys = length xs
              \<and> sum_list (map m ys) = sum_list (map w xs)"
  using assms
proof (induction xs)
  case Nil then show ?case by simp
next
  case (Cons x xs)
  from Cons.prems [of x] obtain y where y: "f x = Inr y" "m y = w x" by auto
  from Cons.IH Cons.prems obtain ys where
    "map_err f xs = Inr ys" "length ys = length xs" "sum_list (map m ys) = sum_list (map w xs)"
    by auto
  with y show ?case by simp
qed

lemma leaves_children:
  "length (walk_struct (NavNode t i (Some cs)))
     = (if cs = [] then 1 else sum_list (map (\<lambda>c. length (walk_struct c)) cs))"
  by (cases cs) (simp_all add: length_concat comp_def)

lemma item_leaves_sum:
  "sum_list (map item_leaves items) = at_items string_entries items + at_items childless items"
  by (induction items) (auto simp: at_items_def split: option.splits)

lemma children_leaves:
  assumes ok: "node_ok True (Lst items)"
    and ih: "\<forall>item \<in> set items. \<forall>kv. sole_entry item = Some kv \<longrightarrow>
               (\<forall>k path. \<exists>n. parse_sidebar k (snd kv) path = Inr n
                  \<and> length (walk_struct n) = string_entries (snd kv) + childless (snd kv))"
  shows "\<exists>cs. map_err (\<lambda>item. case first_entry item of Inl e \<Rightarrow> Inl e
                  | Inr kv \<Rightarrow> parse_sidebar (fst kv) (snd kv) p) items = Inr cs
            \<and> length cs = length items
            \<and> sum_list (map (\<lambda>c. length (walk_struct c)) cs) = sum_list (map item_leaves items)"
proof (rule map_err_sum)
  fix x assume x: "x \<in> set items"
  with ok obtain kv where kv: "sole_entry x = Some kv"
    by (auto simp: list_all_iff split: option.splits)
  from sole_entry_SomeD [OF kv] have fe: "first_entry x = Inr kv" by simp
  from ih x kv obtain n where
    "parse_sidebar (fst kv) (snd kv) p = Inr n"
    "length (walk_struct n) = string_entries (snd kv) + childless (snd kv)"
    by blast
  with kv fe
  show "\<exists>y. (case first_entry x of Inl e \<Rightarrow> Inl e
                  | Inr kv \<Rightarrow> parse_sidebar (fst kv) (snd kv) p) = Inr y
           \<and> length (walk_struct y) = item_leaves x"
    by simp
qed

lemma list_node_leaves:
  assumes "map_err (\<lambda>item. case first_entry item of Inl e \<Rightarrow> Inl e
                  | Inr kv \<Rightarrow> parse_sidebar (fst kv) (snd kv) (path @ k @ ''/'')) items = Inr cs"
    and "length cs = length items"
    and "sum_list (map (\<lambda>c. length (walk_struct c)) cs) = sum_list (map item_leaves items)"
  shows "\<exists>n. parse_sidebar k (Lst items) path = Inr n
           \<and> length (walk_struct n) = string_entries (Lst items) + childless (Lst items)"
proof -
  have n: "parse_sidebar k (Lst items) path = Inr (NavNode (unquote (strip sep k)) (path @ k) (Some cs))"
    using assms(1) by simp
  have "length (walk_struct (NavNode (unquote (strip sep k)) (path @ k) (Some cs)))
          = string_entries (Lst items) + childless (Lst items)"
  proof (cases "items = []")
    case True
    with assms(2) show ?thesis by simp
  next
    case False
    with assms(2) have "cs \<noteq> []" by auto
    then have "length (walk_struct (NavNode (unquote (strip sep k)) (path @ k) (Some cs)))
                 = sum_list (map item_leaves items)"
      using assms(3) by (simp add: leaves_children)
    also have "\<dots> = string_entries (Lst items) + childless (Lst items)"
      using False by (simp add: item_leaves_sum at_items_def)
    finally show ?thesis .
  qed
  with n show ?thesis by simp
qed

lemma parse_sidebar_leaves:
  "node_ok True v \<Longrightarrow>
     \<forall>k path. \<exists>n. parse_sidebar k v path = Inr n
        \<and> length (walk_struct n) = string_entries v + childless v"
proof (induction "True" v rule: node_ok.induct)
  case (1 v)
  show ?case by (simp add: Let_def)
next
  case (2 items)
  show ?case
  proof (intro allI)
    fix k path
    have "\<forall>k path. \<exists>n. parse_sidebar k (snd kv) path = Inr n
                  \<and> length (walk_struct n) = string_entries (snd kv) + childless (snd kv)"
      if "item \<in> set items" "sole_entry item = Some kv" for item kv
    proof -
      from "2.prems" that have "node_ok True (snd kv)"
        by (rule node_ok_item)
      with "2.hyps" [OF that] show ?thesis by blast
    qed
    then have ih: "\<forall>item \<in> set items. \<forall>kv. sole_entry item = Some kv \<longrightarrow>
               (\<forall>k path. \<exists>n. parse_sidebar k (snd kv) path = Inr n
                  \<and> length (walk_struct n) = string_entries (snd kv) + childless (snd kv))"
      by blast
    from children_leaves [OF "2.prems" ih, where p = "path @ k @ ''/''"] obtain cs where
      "map_err (\<lambda>item. case first_entry item of Inl e \<Rightarrow> Inl e
                  | Inr kv \<Rightarrow> parse_sidebar (fst kv) (snd kv) (path @ k @ ''/'')) items = Inr cs"
      "length cs = length items"
      "sum_list (map (\<lambda>c. length (walk_struct c)) cs) = sum_list (map item_leaves items)"
      by blast
    then show "\<exists>n. parse_sidebar k (Lst items) path = Inr n
           \<and> length (walk_struct n) = string_entries (Lst items) + childless (Lst items)"
      by (rule list_node_leaves)
  qed
next
  case (3 d)
  from "3.prems" obtain items where items: "map_of d ''subsections'' = Some (Lst items)"
      "node_ok True (Lst items)"
    by (auto split: option.splits cfg.splits)
  from "3.hyps" [OF items(1) refl items(2)] have
    ih: "\<forall>k path. \<exists>n. parse_sidebar k (Lst items) path = Inr n
        \<and> length (walk_struct n) = string_entries (Lst items) + childless (Lst items)" .
  have eq: "parse_sidebar k (Dct d) path = parse_sidebar k (Lst items) path" for k path
    using items(1) by (simp split: sum.splits)
  from ih show ?case
    using items(1) by (simp add: eq del: parse_sidebar.simps string_entries.simps(2) childless.simps(2))
next
  case 4
  then show ?case by simp
qed

text \<open>
  C7 (as the code has it). For every well-formed structure \<open>_parse_structure\<close> returns
  (both passes are total functions of the structure and raise nothing), and the number of
  leaves of the sidebar is the number of string-valued entries plus the number of list or
  dictionary values without child items. The entries under \<open>extra\<close> add to the copy plan
  only.
\<close>

theorem sidebar_leaf_count:
  assumes "node_ok True (Lst items)"
  shows "\<exists>p. parse_structure (Lst items) cwd docusaurus_dir = Inr p
           \<and> leaves (sidebar p) = at_items string_entries items + at_items childless items"
proof -
  from parse_copy_ok [OF assms] obtain plan where
    plan: "parse_copy (Lst items) cwd (join docusaurus_dir ''docs'') {} = Inr plan"
    by blast
  have "\<forall>k path. \<exists>n. parse_sidebar k (snd kv) path = Inr n
                  \<and> length (walk_struct n) = string_entries (snd kv) + childless (snd kv)"
    if "item \<in> set items" "sole_entry item = Some kv" for item kv
  proof -
    from assms that have "node_ok True (snd kv)"
      by (rule node_ok_item)
    then show ?thesis by (rule parse_sidebar_leaves)
  qed
  then have ih: "\<forall>item \<in> set items. \<forall>kv. sole_entry item = Some kv \<longrightarrow>
               (\<forall>k path. \<exists>n. parse_sidebar k (snd kv) path = Inr n
                  \<and> length (walk_struct n) = string_entries (snd kv) + childless (snd kv))"
    by blast
  from children_leaves [OF assms ih, where p = "[]"] obtain cs where cs:
    "map_err (\<lambda>item. case first_entry item of Inl e \<Rightarrow> Inl e
                | Inr kv \<Rightarrow> parse_sidebar (fst kv) (snd kv) []) items = Inr cs"
    "sum_list (map (\<lambda>c. length (walk_struct c)) cs) = sum_list (map item_leaves items)"
    by blast
  have "leaves cs = sum_list (map item_leaves items)"
    using cs(2) by (simp add: leaves_def length_concat comp_def)
  with plan cs(1) show ?thesis
    by (simp add: parse_structure_def item_leaves_sum del: parse_copy.simps)
qed

theorem sidebar_leaf_count_witness:
  "map_sum id (\<lambda>p. leaves (sidebar p))
     (parse_structure (Lst [Dct [(''Guide'', Lst [])], Dct [(''Intro'', Str ''intro.md'')]]) ''/src'' ''/dst'')
   = Inr 2"
proof -
  have ok: "node_ok True (Lst [Dct [(''Guide'', Lst [])], Dct [(''Intro'', Str ''intro.md'')]])"
    by simp
  from sidebar_leaf_count [OF ok, of "''/src''" "''/dst''"] obtain p where
    "parse_structure (Lst [Dct [(''Guide'', Lst [])], Dct [(''Intro'', Str ''intro.md'')]]) ''/src'' ''/dst'' = Inr p"
    "leaves (sidebar p) = at_items string_entries [Dct [(''Guide'', Lst [])], Dct [(''Intro'', Str ''intro.md'')]]
        + at_items childless [Dct [(''Guide'', Lst [])], Dct [(''Intro'', Str ''intro.md'')]]"
    by blast
  then show ?thesis by (simp add: at_items_def)
qed

text \<open>
  C7 (as the claim states it) fails: the structure \<open>gallery_structure\<close> is well formed and
  has one string-valued entry and one entry under \<open>extra\<close>, and its sidebar has one leaf,
  not two.
\<close>

theorem extra_entries_add_no_leaf:
  "node_ok True gallery_structure
   \<and> string_entries gallery_structure = 1
   \<and> extra_listed gallery_structure = 1
   \<and> map_sum id (\<lambda>p. leaves (sidebar p)) (parse_structure gallery_structure ''/src'' ''/dst'') = Inr 1
   \<and> map_sum id (\<lambda>p. leaves (sidebar p)) (parse_structure gallery_structure ''/src'' ''/dst'')
       \<noteq> Inr (string_entries gallery_structure + extra_listed gallery_structure)"
  by (simp add: gallery_structure_def parse_structure_def leaves_def fields_ok_def path_eval)

section \<open>Following a rewritten link\<close>

lemma split_free: "c \<notin> set a \<Longrightarrow> split c a = [a]"
  by (induction a) auto

lemma split_append: "c \<notin> set a \<Longrightarrow> split c (a @ c # b) = a # split c b"
  by (induction a) auto

lemma split_join_with:
  "xs \<noteq> [] \<Longrightarrow> \<forall>x \<in> set xs. sep \<notin> set x \<Longrightarrow> split sep (join_with ''/'' xs) = xs"
proof (induction "''/''" xs rule: join_with.induct)
  case (1) then show ?case by simp
next
  case (2 p) then show ?case by (simp add: split_free)
next
  case (3 p q ps)
  then show ?case by (simp add: split_append)
qed

















lemma names_sep_free: "names cs \<Longrightarrow> \<forall>x \<in> set cs. sep \<notin> set x"
  by (auto simp: names_def proper_def list_all_iff)

lemma names_nonempty: "names cs \<Longrightarrow> \<forall>x \<in> set cs. x \<noteq> []"
  by (auto simp: names_def proper_def list_all_iff)




lemma comps_abs_path:
  assumes "names cs"
  shows "filter (\<lambda>x. x \<noteq> []) (split sep (abs_path cs)) = cs"
proof (cases "cs = []")
  case True then show ?thesis by (simp add: abs_path_def)
next
  case False
  with assms show ?thesis
    using names_nonempty [OF assms]
    by (simp add: abs_path_def split_join_with names_sep_free filter_id_conv)
qed























lemma split_append_sep: "split c (a @ c # b) = split c a @ split c b"
proof (induction a)
  case Nil then show ?case by simp
next
  case (Cons x a)
  then show ?case using split_nonempty [of c a] by (auto split: list.splits)
qed

lemma comps_append_sep: "comps (a @ sep # b) = comps a @ comps b"
  by (simp add: comps_def split_append_sep)





lemma comps_abs: "names cs \<Longrightarrow> comps (abs_path cs) = cs"
  by (simp add: comps_def comps_abs_path)


lemma comps_Nil: "comps [] = []"
  by (simp add: comps_def)

lemma comps_replicate: "comps (a @ replicate n sep) = comps a"
proof (induction n)
  case 0 then show ?case by simp
next
  case (Suc n)
  have "a @ replicate (Suc n) sep = (a @ replicate n sep) @ sep # []"
    by (simp add: replicate_append_same)
  then have "comps (a @ replicate (Suc n) sep) = comps (a @ replicate n sep) @ comps []"
    by (simp only: comps_append_sep)
  with Suc show ?case by (simp add: comps_Nil)
qed

lemma rstrip_replicate: "\<exists>n. s = rstrip c s @ replicate n c"
proof -
  have "rev s = takeWhile (\<lambda>x. x = c) (rev s) @ dropWhile (\<lambda>x. x = c) (rev s)" by simp
  moreover have "takeWhile (\<lambda>x. x = c) (rev s) = replicate (length (takeWhile (\<lambda>x. x = c) (rev s))) c"
    by (metis (mono_tags, lifting) replicate_length_same set_takeWhileD)
  ultimately have "rev s = replicate (length (takeWhile (\<lambda>x. x = c) (rev s))) c @ dropWhile (\<lambda>x. x = c) (rev s)"
    by simp
  then have "s = rev (dropWhile (\<lambda>x. x = c) (rev s)) @ replicate (length (takeWhile (\<lambda>x. x = c) (rev s))) c"
    by (metis rev_append rev_replicate rev_rev_ident)
  then show ?thesis unfolding rstrip_def by blast
qed

lemma comps_rstrip: "comps (rstrip sep s) = comps s"
  using rstrip_replicate [of s sep] comps_replicate by metis












lemma abs_path_inj: "names cs \<Longrightarrow> names ss \<Longrightarrow> abs_path cs = abs_path ss \<Longrightarrow> cs = ss"
  by (metis comps_abs)







lemma copied_to_startswith:
  assumes "copied_to fs e p = Some q"
  shows "startswith p (rstrip sep (fst e))"
proof -
  from assms have "prefix (fst e) p"
    by (auto simp: copied_to_def Let_def startswith_def prefix_def split: if_splits)
  moreover have "prefix (rstrip sep (fst e)) (fst e)"
    using rstrip_replicate [of "fst e" sep] by (metis prefixI)
  ultimately show ?thesis by (auto simp: startswith_def)
qed


















end
